theory Spec2Isabelle
  imports Main "HOL-Library.Word"
begin

section \<open>Data model\<close>

text \<open>
  JavaScript strings are sequences of UTF-16 code units; buffers (\<open>Uint8Array\<close>) are
  sequences of bytes. \<open>js\<close> writes an ASCII literal of the source as a JavaScript string.
\<close>

type_synonym byte = "8 word"
type_synonym jsstring = "16 word list"

definition js :: "string \<Rightarrow> jsstring" where
  "js s = map (\<lambda>c. word_of_nat (of_char c)) s"

text \<open>
  Every \<open>throw\<close> of the sources and every rejection of a platform promise is a value of
  \<open>error\<close>. The three \<open>GitHub ... failed: status\<close> errors carry the HTTP status.
\<close>

datatype error =
    TypeError
  | RangeError
  | SyntaxError
  | OperationError
  | InvalidCharacterError
  | NetworkError
  | GitHubNotConfigured
  | GitHubFetchFailed nat
  | GitHubPushFailed nat
  | GitHubPullFailed nat

text \<open>The encrypted payload \<open>{salt, iv, ciphertext}\<close> of crypto.js, three base64 strings.\<close>

record envelope =
  salt :: jsstring
  iv :: jsstring
  ciphertext :: jsstring

text \<open>The GitHub configuration \<open>{owner, repo, token}\<close> of github.js.\<close>

record gh_config =
  owner :: jsstring
  repo :: jsstring
  token :: jsstring

text \<open>
  \<open>localStorage\<close> holds three keys: \<open>mv_vault\<close> (the JSON text of the envelope),
  \<open>mv_pending\<close> (the offline-queue flag) and \<open>mv_gh_cfg\<close> (the JSON text of the GitHub
  configuration). A key that is not set is \<open>None\<close>. The JSON text of an envelope or of a
  configuration is kept as the value it denotes.
\<close>

record local_storage =
  mv_vault :: "envelope option"
  mv_pending :: "jsstring option"
  mv_gh_cfg :: "gh_config option"

text \<open>
  The vault \<open>{ version, tables: { name: {columns, rows} } }\<close> of app.js. A row is a
  JavaScript array: a slot that was never assigned (a hole) is \<open>None\<close>.
\<close>

type_synonym cell = "jsstring option"

record table =
  columns :: "jsstring list"
  rows :: "cell list list"

text \<open>
  \<open>tables\<close> is an ordinary object, and the map below holds its own properties. A property
  holds a table or, once \<open>renameTable\<close> has copied a property that every object inherits
  from \<open>Object.prototype\<close>, a value that is no table (a function, or the prototype
  itself): it is truthy and has neither \<open>rows\<close> nor \<open>columns\<close>.
\<close>

datatype entry = Table table | Foreign

record vault_data =
  version :: nat
  tables :: "jsstring \<rightharpoonup> entry"

text \<open>The \<open>state\<close> object of app.js.\<close>

record app_state =
  locked :: bool
  password :: "jsstring option"
  vault :: "vault_data option"
  activeTable :: "jsstring option"
  searchQuery :: jsstring
  pendingSync :: bool

text \<open>
  The requests github.js sends with \<open>fetch\<close>: the URL is built from owner and repo, the
  headers from the token. The \<open>content\<close> of a PUT body is the base64 text of an envelope's
  JSON text and is kept as the envelope it denotes. A response is read through its status
  and, for the contents endpoint, the \<open>sha\<close> and the decoded \<open>content\<close> of its JSON body.
\<close>

record put_body =
  message :: jsstring
  content :: envelope
  sha :: "jsstring option"

datatype request =
    GET_contents gh_config
  | PUT_contents gh_config put_body
  | GET_repo jsstring jsstring jsstring

datatype json_body = No_JSON | File_JSON jsstring envelope

record response =
  status :: nat
  payload :: json_body

definition res_ok :: "response \<Rightarrow> bool" where
  "res_ok res = (200 \<le> status res \<and> status res \<le> 299)"

text \<open>
  What the sources take from the platform and is not fixed by a standard algorithm over
  strings and bytes is a parameter of the model: \<open>fetch\<close> over a network state of any
  type (\<open>None\<close> is a rejected promise), PBKDF2 and AES-GCM of \<open>crypto.subtle\<close> over keys of
  any type (\<open>aes_gcm_decrypt\<close> gives \<open>None\<close> where the platform rejects with an
  OperationError), JSON for the vault, and the number of arguments the engine accepts in
  one call (a call that spreads a longer array throws a RangeError). The text codecs
  (\<open>TextEncoder\<close>, \<open>TextDecoder\<close>, \<open>btoa\<close>, \<open>atob\<close>), \<open>JSON.stringify\<close> of an envelope and the
  string and array methods are defined below as their standards define them.
\<close>

record ('n, 'k) platform =
  fetch :: "request \<Rightarrow> 'n \<Rightarrow> response option \<times> 'n"
  pbkdf2 :: "byte list \<Rightarrow> byte list \<Rightarrow> nat \<Rightarrow> 'k"
  aes_gcm_encrypt :: "'k \<Rightarrow> byte list \<Rightarrow> byte list \<Rightarrow> byte list"
  aes_gcm_decrypt :: "'k \<Rightarrow> byte list \<Rightarrow> byte list \<Rightarrow> byte list option"
  JSON_stringify :: "vault_data \<Rightarrow> jsstring"
  JSON_parse :: "jsstring \<Rightarrow> error + vault_data"
  max_arguments :: nat

text \<open>
  Everything the program can change: the \<open>state\<close> object and the lock timer of app.js
  (\<open>lockTimer\<close> is true while a timeout is scheduled), \<open>localStorage\<close>, the network, and the
  bytes \<open>crypto.getRandomValues\<close> will return next.
\<close>

record 'n world =
  state :: app_state
  lockTimer :: bool
  localStorage :: local_storage
  network :: 'n
  entropy :: "nat \<Rightarrow> byte"

section \<open>TextEncoder and TextDecoder\<close>

text \<open>
  \<open>new TextEncoder().encode(s)\<close> first converts the string to scalar values, a surrogate
  code unit outside a pair becoming U+FFFD, then writes each scalar value in UTF-8.
\<close>

definition is_high :: "16 word \<Rightarrow> bool" where
  "is_high c = (0xD800 \<le> c \<and> c \<le> 0xDBFF)"

definition is_low :: "16 word \<Rightarrow> bool" where
  "is_low c = (0xDC00 \<le> c \<and> c \<le> 0xDFFF)"

definition pair_value :: "16 word \<Rightarrow> 16 word \<Rightarrow> nat" where
  "pair_value c d = 0x10000 + (unat c - 0xD800) * 0x400 + (unat d - 0xDC00)"

fun to_scalars :: "jsstring \<Rightarrow> nat list" where
  "to_scalars [] = []"
| "to_scalars [c] = [if is_high c \<or> is_low c then 0xFFFD else unat c]"
| "to_scalars (c # d # s) =
     (if is_high c then
        (if is_low d then pair_value c d # to_scalars s else 0xFFFD # to_scalars (d # s))
      else if is_low c then 0xFFFD # to_scalars (d # s)
      else unat c # to_scalars (d # s))"

definition utf8_encode :: "nat \<Rightarrow> byte list" where
  "utf8_encode cp =
     (if cp < 0x80 then [of_nat cp]
      else if cp < 0x800 then [of_nat (0xC0 + cp div 0x40), of_nat (0x80 + cp mod 0x40)]
      else if cp < 0x10000 then
        [of_nat (0xE0 + cp div 0x1000), of_nat (0x80 + cp div 0x40 mod 0x40),
         of_nat (0x80 + cp mod 0x40)]
      else
        [of_nat (0xF0 + cp div 0x40000), of_nat (0x80 + cp div 0x1000 mod 0x40),
         of_nat (0x80 + cp div 0x40 mod 0x40), of_nat (0x80 + cp mod 0x40)])"

definition TextEncoder_encode :: "jsstring \<Rightarrow> byte list" where
  "TextEncoder_encode s = concat (map utf8_encode (to_scalars s))"

text \<open>
  \<open>new TextDecoder().decode(buf)\<close>: the UTF-8 decoder of the Encoding standard, not fatal
  (a malformed sequence gives U+FFFD and the offending byte is read again), with the byte
  order mark removed (\<open>ignoreBOM\<close> is false by default). The decoder's state is the code
  point so far, the number of continuation bytes still needed, and the bounds of the next
  continuation byte.
\<close>

fun utf8_decode :: "nat \<Rightarrow> nat \<Rightarrow> nat \<Rightarrow> nat \<Rightarrow> byte list \<Rightarrow> nat list" where
  "utf8_decode cp 0 lo hi [] = []"
| "utf8_decode cp (Suc n) lo hi [] = [0xFFFD]"
| "utf8_decode cp 0 lo hi (b # bs) =
     (let v = unat b in
      if v \<le> 0x7F then v # utf8_decode 0 0 0x80 0xBF bs
      else if 0xC2 \<le> v \<and> v \<le> 0xDF then utf8_decode (v mod 0x20) 1 0x80 0xBF bs
      else if 0xE0 \<le> v \<and> v \<le> 0xEF then
        utf8_decode (v mod 0x10) 2 (if v = 0xE0 then 0xA0 else 0x80)
          (if v = 0xED then 0x9F else 0xBF) bs
      else if 0xF0 \<le> v \<and> v \<le> 0xF4 then
        utf8_decode (v mod 0x08) 3 (if v = 0xF0 then 0x90 else 0x80)
          (if v = 0xF4 then 0x8F else 0xBF) bs
      else 0xFFFD # utf8_decode 0 0 0x80 0xBF bs)"
| "utf8_decode cp (Suc n) lo hi (b # bs) =
     (let v = unat b in
      if v < lo \<or> hi < v then 0xFFFD # utf8_decode 0 0 0x80 0xBF (b # bs)
      else if n = 0 then (cp * 0x40 + v mod 0x40) # utf8_decode 0 0 0x80 0xBF bs
      else utf8_decode (cp * 0x40 + v mod 0x40) n 0x80 0xBF bs)"

definition strip_bom :: "nat list \<Rightarrow> nat list" where
  "strip_bom cps = (case cps of [] \<Rightarrow> [] | c # cs \<Rightarrow> if c = 0xFEFF then cs else c # cs)"

definition from_scalar :: "nat \<Rightarrow> jsstring" where
  "from_scalar cp =
     (if cp < 0x10000 then [of_nat cp]
      else [of_nat (0xD800 + (cp - 0x10000) div 0x400),
            of_nat (0xDC00 + (cp - 0x10000) mod 0x400)])"

definition TextDecoder_decode :: "byte list \<Rightarrow> jsstring" where
  "TextDecoder_decode buf =
     concat (map from_scalar (strip_bom (utf8_decode 0 0 0x80 0xBF buf)))"

text \<open>A scalar value is a code point that is not a surrogate.\<close>

definition is_scalar :: "nat \<Rightarrow> bool" where
  "is_scalar cp = (cp < 0x110000 \<and> \<not> (0xD800 \<le> cp \<and> cp \<le> 0xDFFF))"

section \<open>btoa and atob\<close>

text \<open>
  \<open>btoa\<close> throws an InvalidCharacterError on a char code above 255 and otherwise writes
  the char codes, as bytes, in base64 with padding. \<open>atob\<close> is the forgiving decoder: it
  drops ASCII white space, removes one or two padding signs from a text whose length is a
  multiple of four, fails on a length that leaves remainder one and on any character
  outside the alphabet, and discards the bits left over after the last whole byte.
\<close>

definition b64_char :: "nat \<Rightarrow> 16 word" where
  "b64_char n =
     (if n < 26 then of_nat (0x41 + n)
      else if n < 52 then of_nat (0x61 + (n - 26))
      else if n < 62 then of_nat (0x30 + (n - 52))
      else if n = 62 then 0x2B
      else 0x2F)"

definition b64_index :: "16 word \<Rightarrow> nat option" where
  "b64_index c =
     (if 0x41 \<le> c \<and> c \<le> 0x5A then Some (unat c - 0x41)
      else if 0x61 \<le> c \<and> c \<le> 0x7A then Some (unat c - 0x61 + 26)
      else if 0x30 \<le> c \<and> c \<le> 0x39 then Some (unat c - 0x30 + 52)
      else if c = 0x2B then Some 62
      else if c = 0x2F then Some 63
      else None)"

fun b64_sextets :: "nat list \<Rightarrow> nat list" where
  "b64_sextets (a # b # c # r) =
     [a div 4, a mod 4 * 16 + b div 16, b mod 16 * 4 + c div 64, c mod 64] @ b64_sextets r"
| "b64_sextets [a, b] = [a div 4, a mod 4 * 16 + b div 16, b mod 16 * 4]"
| "b64_sextets [a] = [a div 4, a mod 4 * 16]"
| "b64_sextets [] = []"

fun b64_bytes :: "nat list \<Rightarrow> nat list" where
  "b64_bytes (w # x # y # z # r) =
     [w * 4 + x div 16, x mod 16 * 16 + y div 4, y mod 4 * 64 + z] @ b64_bytes r"
| "b64_bytes [w, x, y] = [w * 4 + x div 16, x mod 16 * 16 + y div 4]"
| "b64_bytes [w, x] = [w * 4 + x div 16]"
| "b64_bytes [w] = []"
| "b64_bytes [] = []"

definition btoa :: "jsstring \<Rightarrow> error + jsstring" where
  "btoa s =
     (if list_all (\<lambda>c. c \<le> 0xFF) s
      then Inr (map b64_char (b64_sextets (map unat s))
                @ replicate ((3 - length s mod 3) mod 3) 0x3D)
      else Inl InvalidCharacterError)"

definition is_ascii_space :: "16 word \<Rightarrow> bool" where
  "is_ascii_space c = (c \<in> {0x09, 0x0A, 0x0C, 0x0D, 0x20})"

definition strip_padding :: "jsstring \<Rightarrow> jsstring" where
  "strip_padding s =
     (if length s mod 4 = 0 \<and> s \<noteq> [] \<and> last s = 0x3D then
        (if butlast s \<noteq> [] \<and> last (butlast s) = 0x3D then butlast (butlast s)
         else butlast s)
      else s)"

definition atob :: "jsstring \<Rightarrow> error + jsstring" where
  "atob s =
     (let d = strip_padding (filter (\<lambda>c. \<not> is_ascii_space c) s) in
      if length d mod 4 = 1 \<or> \<not> list_all (\<lambda>c. b64_index c \<noteq> None) d
      then Inl InvalidCharacterError
      else Inr (map of_nat (b64_bytes (map (\<lambda>c. the (b64_index c)) d))))"

section \<open>JSON.stringify of an envelope\<close>

text \<open>
  \<open>JSON.stringify\<close> writes a string between double quotes: the quote, the backslash and
  the control characters are escaped, a surrogate code unit outside a pair is written as
  an escape of four hexadecimal digits, and every other code unit stands for itself. An envelope is written with its
  three properties in the order in which \<open>encrypt\<close> creates them.
\<close>

definition hex_digit :: "nat \<Rightarrow> 16 word" where
  "hex_digit n = (if n < 10 then of_nat (0x30 + n) else of_nat (0x61 + (n - 10)))"

definition UnicodeEscape :: "16 word \<Rightarrow> jsstring" where
  "UnicodeEscape c =
     [0x5C, 0x75, hex_digit (unat c div 0x1000), hex_digit (unat c div 0x100 mod 0x10),
      hex_digit (unat c div 0x10 mod 0x10), hex_digit (unat c mod 0x10)]"

definition quote_unit :: "16 word \<Rightarrow> jsstring" where
  "quote_unit c =
     (if c = 0x08 then [0x5C, 0x62]
      else if c = 0x09 then [0x5C, 0x74]
      else if c = 0x0A then [0x5C, 0x6E]
      else if c = 0x0C then [0x5C, 0x66]
      else if c = 0x0D then [0x5C, 0x72]
      else if c = 0x22 then [0x5C, 0x22]
      else if c = 0x5C then [0x5C, 0x5C]
      else if c < 0x20 \<or> is_high c \<or> is_low c then UnicodeEscape c
      else [c])"

fun quote_units :: "jsstring \<Rightarrow> jsstring" where
  "quote_units [] = []"
| "quote_units [c] = quote_unit c"
| "quote_units (c # d # s) =
     (if is_high c \<and> is_low d then c # d # quote_units s
      else quote_unit c @ quote_units (d # s))"

definition QuoteJSONString :: "jsstring \<Rightarrow> jsstring" where
  "QuoteJSONString s = [0x22] @ quote_units s @ [0x22]"

definition stringify_envelope :: "envelope \<Rightarrow> jsstring" where
  "stringify_envelope p =
     [0x7B] @ QuoteJSONString (js ''salt'') @ [0x3A] @ QuoteJSONString (salt p) @
     [0x2C] @ QuoteJSONString (js ''iv'') @ [0x3A] @ QuoteJSONString (iv p) @
     [0x2C] @ QuoteJSONString (js ''ciphertext'') @ [0x3A] @ QuoteJSONString (ciphertext p) @
     [0x7D]"

section \<open>storage.js: the local store and the pending flag\<close>

definition truthy :: "jsstring option \<Rightarrow> bool" where
  "truthy v = (case v of None \<Rightarrow> False | Some s \<Rightarrow> s \<noteq> [])"

definition saveLocal :: "envelope \<Rightarrow> 'n world \<Rightarrow> 'n world" where
  "saveLocal encryptedPayload w =
     w\<lparr>localStorage := (localStorage w)\<lparr>mv_vault := Some encryptedPayload\<rparr>\<rparr>"

definition loadLocal :: "'n world \<Rightarrow> envelope option" where
  "loadLocal w = mv_vault (localStorage w)"

definition hasLocal :: "'n world \<Rightarrow> bool" where
  "hasLocal w = (mv_vault (localStorage w) \<noteq> None)"

definition clearLocal :: "'n world \<Rightarrow> 'n world" where
  "clearLocal w =
     w\<lparr>localStorage := (localStorage w)\<lparr>mv_vault := None, mv_pending := None\<rparr>\<rparr>"

definition markPending :: "'n world \<Rightarrow> 'n world" where
  "markPending w = w\<lparr>localStorage := (localStorage w)\<lparr>mv_pending := Some (js ''1'')\<rparr>\<rparr>"

definition clearPending :: "'n world \<Rightarrow> 'n world" where
  "clearPending w = w\<lparr>localStorage := (localStorage w)\<lparr>mv_pending := None\<rparr>\<rparr>"

definition hasPending :: "'n world \<Rightarrow> bool" where
  "hasPending w = truthy (mv_pending (localStorage w))"

section \<open>github.js: the remote file\<close>

definition getConfig :: "'n world \<Rightarrow> gh_config option" where
  "getConfig w = mv_gh_cfg (localStorage w)"

definition setConfig :: "jsstring \<Rightarrow> jsstring \<Rightarrow> jsstring \<Rightarrow> 'n world \<Rightarrow> 'n world" where
  "setConfig ow re tk w =
     w\<lparr>localStorage := (localStorage w)
         \<lparr>mv_gh_cfg := Some \<lparr>owner = ow, repo = re, token = tk\<rparr>\<rparr>\<rparr>"

definition clearConfig :: "'n world \<Rightarrow> 'n world" where
  "clearConfig w = w\<lparr>localStorage := (localStorage w)\<lparr>mv_gh_cfg := None\<rparr>\<rparr>"

definition isConfigured :: "'n world \<Rightarrow> bool" where
  "isConfigured w =
     (case getConfig w of
        None \<Rightarrow> False
      | Some cfg \<Rightarrow> owner cfg \<noteq> [] \<and> repo cfg \<noteq> [] \<and> token cfg \<noteq> [])"

text \<open>One \<open>await fetch(...)\<close>: the network answers and moves to its next state.\<close>

definition do_fetch ::
  "('n, 'k) platform \<Rightarrow> request \<Rightarrow> 'n world \<Rightarrow> response option \<times> 'n world" where
  "do_fetch pf req w =
     (case fetch pf req (network w) of (r, n) \<Rightarrow> (r, w\<lparr>network := n\<rparr>))"

definition getFileSha ::
  "('n, 'k) platform \<Rightarrow> gh_config \<Rightarrow> 'n world \<Rightarrow> (error + jsstring option) \<times> 'n world" where
  "getFileSha pf cfg w =
     (case do_fetch pf (GET_contents cfg) w of
        (None, w1) \<Rightarrow> (Inl NetworkError, w1)
      | (Some res, w1) \<Rightarrow>
          if status res = 404 then (Inr None, w1)
          else if \<not> res_ok res then (Inl (GitHubFetchFailed (status res)), w1)
          else (case payload res of
                  No_JSON \<Rightarrow> (Inl SyntaxError, w1)
                | File_JSON s c \<Rightarrow> (Inr (Some s), w1)))"

text \<open>
  \<open>push\<close> computes \<open>btoa(JSON.stringify(encryptedPayload))\<close> before it asks for the file's
  sha, so an envelope that holds a char code above 255 makes it throw with no request
  sent.
\<close>

definition push ::
  "('n, 'k) platform \<Rightarrow> envelope \<Rightarrow> 'n world \<Rightarrow> (error + unit) \<times> 'n world" where
  "push pf encryptedPayload w =
     (case getConfig w of
        None \<Rightarrow> (Inl GitHubNotConfigured, w)
      | Some cfg \<Rightarrow>
          (case btoa (stringify_envelope encryptedPayload) of
             Inl e \<Rightarrow> (Inl e, w)
           | Inr c \<Rightarrow>
               (case getFileSha pf cfg w of
                  (Inl e, w1) \<Rightarrow> (Inl e, w1)
                | (Inr s, w1) \<Rightarrow>
                    (let body = \<lparr>message = js ''vault update'', content = encryptedPayload,
                                 sha = (if truthy s then s else None)\<rparr>
                     in case do_fetch pf (PUT_contents cfg body) w1 of
                          (None, w2) \<Rightarrow> (Inl NetworkError, w2)
                        | (Some res, w2) \<Rightarrow>
                            if \<not> res_ok res then (Inl (GitHubPushFailed (status res)), w2)
                            else (Inr (), w2)))))"

definition pull ::
  "('n, 'k) platform \<Rightarrow> 'n world \<Rightarrow> (error + envelope option) \<times> 'n world" where
  "pull pf w =
     (case getConfig w of
        None \<Rightarrow> (Inr None, w)
      | Some cfg \<Rightarrow>
          (case do_fetch pf (GET_contents cfg) w of
             (None, w1) \<Rightarrow> (Inl NetworkError, w1)
           | (Some res, w1) \<Rightarrow>
               if status res = 404 then (Inr None, w1)
               else if \<not> res_ok res then (Inl (GitHubPullFailed (status res)), w1)
               else (case payload res of
                       No_JSON \<Rightarrow> (Inl SyntaxError, w1)
                     | File_JSON s c \<Rightarrow> (Inr (Some c), w1))))"

definition testConnection ::
  "('n, 'k) platform \<Rightarrow> jsstring \<Rightarrow> jsstring \<Rightarrow> jsstring \<Rightarrow> 'n world
     \<Rightarrow> (error + bool) \<times> 'n world" where
  "testConnection pf ow re tk w =
     (case do_fetch pf (GET_repo ow re tk) w of
        (None, w1) \<Rightarrow> (Inl NetworkError, w1)
      | (Some res, w1) \<Rightarrow> (Inr (res_ok res), w1))"

section \<open>storage.js: save and load\<close>

text \<open>
  github.js is loaded with the page, so \<open>typeof GitHub !== 'undefined'\<close> holds and the
  two sync functions turn on \<open>GitHub.isConfigured()\<close> alone.
\<close>

definition syncToGitHub ::
  "('n, 'k) platform \<Rightarrow> envelope \<Rightarrow> 'n world \<Rightarrow> (error + unit) \<times> 'n world" where
  "syncToGitHub pf encryptedPayload w =
     (if isConfigured w then push pf encryptedPayload w else (Inr (), w))"

definition syncFromGitHub ::
  "('n, 'k) platform \<Rightarrow> 'n world \<Rightarrow> (error + envelope option) \<times> 'n world" where
  "syncFromGitHub pf w = (if isConfigured w then pull pf w else (Inr None, w))"

text \<open>
  \<open>save\<close>: the local write, then the \<open>try\<close> around \<open>syncToGitHub\<close> and \<open>clearPending\<close>, with
  \<open>markPending\<close> in the \<open>catch\<close>. The result is what the caller's \<open>await\<close> sees.
\<close>

definition save ::
  "('n, 'k) platform \<Rightarrow> envelope \<Rightarrow> 'n world \<Rightarrow> (error + unit) \<times> 'n world" where
  "save pf encryptedPayload w =
     (case syncToGitHub pf encryptedPayload (saveLocal encryptedPayload w) of
        (Inr u, w1) \<Rightarrow> (Inr (), clearPending w1)
      | (Inl e, w1) \<Rightarrow> (Inr (), markPending w1))"

text \<open>
  \<open>load\<close>: the \<open>try\<close> around \<open>syncFromGitHub\<close>; a remote envelope is written to the local
  store and returned; an absent one, or the \<open>catch\<close>, falls through to \<open>loadLocal\<close>.
\<close>

definition load ::
  "('n, 'k) platform \<Rightarrow> 'n world \<Rightarrow> (error + envelope option) \<times> 'n world" where
  "load pf w =
     (case syncFromGitHub pf w of
        (Inr (Some remote), w1) \<Rightarrow> (Inr (Some remote), saveLocal remote w1)
      | (Inr None, w1) \<Rightarrow> (Inr (loadLocal w1), w1)
      | (Inl e, w1) \<Rightarrow> (Inr (loadLocal w1), w1))"

section \<open>A reference remote\<close>

text \<open>
  A contents endpoint to run the program against: it holds at most one file, answers 404
  while there is none, refuses an update whose \<open>sha\<close> is not the current one, and records
  every request it receives. \<open>Down\<close> rejects every fetch; \<open>Failing c\<close> answers every
  request with status \<open>c\<close>.
\<close>

datatype link = Up | Down | Failing nat

record github_server =
  link :: link
  stored :: "envelope option"
  revision :: nat
  requests :: "request list"

definition sha_of :: "nat \<Rightarrow> jsstring" where
  "sha_of n = replicate (Suc n) 0x61"

definition server_fetch :: "request \<Rightarrow> github_server \<Rightarrow> response option \<times> github_server" where
  "server_fetch req s0 =
     (let s = s0\<lparr>requests := requests s0 @ [req]\<rparr> in
      case link s of
        Down \<Rightarrow> (None, s)
      | Failing c \<Rightarrow> (Some \<lparr>status = c, payload = No_JSON\<rparr>, s)
      | Up \<Rightarrow>
          (case req of
             GET_contents cfg \<Rightarrow>
               (case stored s of
                  None \<Rightarrow> (Some \<lparr>status = 404, payload = No_JSON\<rparr>, s)
                | Some e \<Rightarrow>
                    (Some \<lparr>status = 200, payload = File_JSON (sha_of (revision s)) e\<rparr>, s))
           | PUT_contents cfg b \<Rightarrow>
               (case stored s of
                  None \<Rightarrow>
                    if sha b = None
                    then (Some \<lparr>status = 201, payload = No_JSON\<rparr>,
                          s\<lparr>stored := Some (content b), revision := Suc (revision s)\<rparr>)
                    else (Some \<lparr>status = 409, payload = No_JSON\<rparr>, s)
                | Some e \<Rightarrow>
                    if sha b = Some (sha_of (revision s))
                    then (Some \<lparr>status = 200, payload = No_JSON\<rparr>,
                          s\<lparr>stored := Some (content b), revision := Suc (revision s)\<rparr>)
                    else (Some \<lparr>status = 409, payload = No_JSON\<rparr>, s))
           | GET_repo ow re tk \<Rightarrow> (Some \<lparr>status = 200, payload = No_JSON\<rparr>, s)))"

section \<open>crypto.js\<close>

definition PBKDF2_ITERATIONS :: nat where "PBKDF2_ITERATIONS = 600000"
definition SALT_BYTES :: nat where "SALT_BYTES = 16"
definition IV_BYTES :: nat where "IV_BYTES = 12"

text \<open>
  \<open>b64encode\<close> spreads the bytes into \<open>String.fromCharCode\<close> and hands the string to \<open>btoa\<close>;
  \<open>b64decode\<close> stores the char codes of \<open>atob\<close>'s result in a \<open>Uint8Array\<close>, which keeps
  their low eight bits. The spread passes one argument per byte, so a buffer longer than
  the engine accepts arguments makes \<open>b64encode\<close> throw a RangeError.
\<close>

definition b64encode :: "('n, 'k) platform \<Rightarrow> byte list \<Rightarrow> error + jsstring" where
  "b64encode pf buf =
     (if max_arguments pf < length buf then Inl RangeError else btoa (map ucast buf))"

definition b64decode :: "jsstring \<Rightarrow> error + byte list" where
  "b64decode str = (case atob str of Inl e \<Rightarrow> Inl e | Inr s \<Rightarrow> Inr (map ucast s))"

definition deriveKey :: "('n, 'k) platform \<Rightarrow> jsstring \<Rightarrow> byte list \<Rightarrow> 'k" where
  "deriveKey pf pw saltv = pbkdf2 pf (TextEncoder_encode pw) saltv PBKDF2_ITERATIONS"

definition getRandomValues :: "nat \<Rightarrow> 'n world \<Rightarrow> byte list \<times> 'n world" where
  "getRandomValues n w =
     (map (entropy w) [0..<n], w\<lparr>entropy := (\<lambda>i. entropy w (i + n))\<rparr>)"

text \<open>\<open>encrypt\<close> after its two random draws, then \<open>encrypt\<close> itself.\<close>

definition encrypt_with ::
  "('n, 'k) platform \<Rightarrow> byte list \<Rightarrow> byte list \<Rightarrow> jsstring \<Rightarrow> jsstring \<Rightarrow> error + envelope" where
  "encrypt_with pf saltv ivv plaintext pw =
     (let key = deriveKey pf pw saltv;
          ct = aes_gcm_encrypt pf key ivv (TextEncoder_encode plaintext)
      in case b64encode pf saltv of
           Inl e \<Rightarrow> Inl e
         | Inr s64 \<Rightarrow>
             (case b64encode pf ivv of
                Inl e \<Rightarrow> Inl e
              | Inr i64 \<Rightarrow>
                  (case b64encode pf ct of
                     Inl e \<Rightarrow> Inl e
                   | Inr c64 \<Rightarrow> Inr \<lparr>salt = s64, iv = i64, ciphertext = c64\<rparr>)))"

definition encrypt ::
  "('n, 'k) platform \<Rightarrow> jsstring \<Rightarrow> jsstring \<Rightarrow> 'n world \<Rightarrow> (error + envelope) \<times> 'n world" where
  "encrypt pf plaintext pw w =
     (case getRandomValues SALT_BYTES w of
        (saltv, w1) \<Rightarrow>
          (case getRandomValues IV_BYTES w1 of
             (ivv, w2) \<Rightarrow> (encrypt_with pf saltv ivv plaintext pw, w2)))"

definition decrypt :: "('n, 'k) platform \<Rightarrow> envelope \<Rightarrow> jsstring \<Rightarrow> error + jsstring" where
  "decrypt pf p pw =
     (case b64decode (salt p) of
        Inl e \<Rightarrow> Inl e
      | Inr saltv \<Rightarrow>
          (case b64decode (iv p) of
             Inl e \<Rightarrow> Inl e
           | Inr ivv \<Rightarrow>
               (case b64decode (ciphertext p) of
                  Inl e \<Rightarrow> Inl e
                | Inr ct \<Rightarrow>
                    (case aes_gcm_decrypt pf (deriveKey pf pw saltv) ivv ct of
                       None \<Rightarrow> Inl OperationError
                     | Some plainBuf \<Rightarrow> Inr (TextDecoder_decode plainBuf)))))"

definition verify :: "('n, 'k) platform \<Rightarrow> envelope \<Rightarrow> jsstring \<Rightarrow> bool" where
  "verify pf p pw = (case decrypt pf p pw of Inl e \<Rightarrow> False | Inr s \<Rightarrow> True)"

section \<open>JavaScript strings and arrays as app.js uses them\<close>

text \<open>\<open>String.prototype.trim\<close> removes white space and line terminators at both ends.\<close>

definition is_space :: "16 word \<Rightarrow> bool" where
  "is_space c =
     (c \<in> {0x09, 0x0A, 0x0B, 0x0C, 0x0D, 0x20, 0xA0, 0x1680, 0x2028, 0x2029, 0x202F,
            0x205F, 0x3000, 0xFEFF} \<or> (0x2000 \<le> c \<and> c \<le> 0x200A))"

definition trim :: "jsstring \<Rightarrow> jsstring" where
  "trim s = rev (dropWhile is_space (rev (dropWhile is_space s)))"

text \<open>\<open>s.split('\n')\<close>.\<close>

fun split_lines :: "jsstring \<Rightarrow> jsstring list" where
  "split_lines [] = [[]]"
| "split_lines (c # s) =
     (if c = 0x0A then [] # split_lines s
      else (case split_lines s of [] \<Rightarrow> [[c]] | l # ls \<Rightarrow> (c # l) # ls))"

text \<open>The decimal digits of a length, as a template literal prints it.\<close>

fun decimal :: "nat \<Rightarrow> jsstring" where
  "decimal n =
     (if n < 10 then [0x30 + of_nat n]
      else decimal (n div 10) @ [0x30 + of_nat (n mod 10)])"

text \<open>
  \<open>a.splice(i, 1)\<close>: a negative start counts from the end, and the start is clamped to the
  array.
\<close>

definition splice1 :: "int \<Rightarrow> 'a list \<Rightarrow> 'a list" where
  "splice1 i xs =
     (let len = int (length xs);
          start = nat (if i < 0 then max (len + i) 0 else min i len)
      in take start xs @ drop (Suc start) xs)"

text \<open>
  \<open>a[i]\<close> read: \<open>undefined\<close> (here \<open>None\<close>) unless \<open>i\<close> is the index of an element.
\<close>

definition element :: "'a list \<Rightarrow> int \<Rightarrow> 'a option" where
  "element xs i = (if 0 \<le> i \<and> i < int (length xs) then Some (xs ! nat i) else None)"

text \<open>
  \<open>a[i] = v\<close> on a row: an index below the length replaces the element; an index from the
  length up to \<open>2^32 - 2\<close> grows the array, leaving holes; any other integer is not an
  array index and names an ordinary property, which leaves the elements and the length
  as they are.
\<close>

definition assign :: "cell list \<Rightarrow> int \<Rightarrow> jsstring \<Rightarrow> cell list" where
  "assign row i v =
     (if i < 0 then row
      else if i < int (length row) then row[nat i := Some v]
      else if i < 4294967295 then row @ replicate (nat i - length row) None @ [Some v]
      else row)"

section \<open>app.js: persistence and the session\<close>

definition emptyVault :: vault_data where
  "emptyVault = \<lparr>version = 1, tables = Map.empty\<rparr>"

text \<open>
  \<open>tables[name]\<close> read: the object's own property of that name or, failing that, the
  property of that name on \<open>Object.prototype\<close>; \<open>undefined\<close> (here \<open>None\<close>) when there is
  neither.
\<close>

definition inherited :: "jsstring list" where
  "inherited =
     map js [''constructor'', ''hasOwnProperty'', ''isPrototypeOf'', ''propertyIsEnumerable'',
             ''toLocaleString'', ''toString'', ''valueOf'', ''__proto__'', ''__defineGetter__'',
             ''__defineSetter__'', ''__lookupGetter__'', ''__lookupSetter__'']"

definition lookup :: "vault_data \<Rightarrow> jsstring \<Rightarrow> entry option" where
  "lookup v name =
     (case tables v name of
        Some e \<Rightarrow> Some e
      | None \<Rightarrow> if name \<in> set inherited then Some Foreign else None)"

definition getTable :: "'n world \<Rightarrow> jsstring \<Rightarrow> entry option" where
  "getTable w name = (case vault (state w) of None \<Rightarrow> None | Some v \<Rightarrow> lookup v name)"

text \<open>
  \<open>persistVault\<close> returns at once unless both the vault and the password are truthy; the
  empty string is falsy. The calls into \<open>UI\<close> (\<open>updateSyncStatus\<close>, \<open>showTableList\<close>,
  \<open>showLogin\<close>) only redraw the page and are left out here and below.
\<close>

definition persistVault :: "('n, 'k) platform \<Rightarrow> 'n world \<Rightarrow> (error + unit) \<times> 'n world" where
  "persistVault pf w =
     (case vault (state w) of
        None \<Rightarrow> (Inr (), w)
      | Some v \<Rightarrow>
          (case password (state w) of
             None \<Rightarrow> (Inr (), w)
           | Some pw \<Rightarrow>
               if pw = [] then (Inr (), w)
               else
                 (case encrypt pf (JSON_stringify pf v) pw w of
                    (Inl e, w1) \<Rightarrow> (Inl e, w1)
                  | (Inr encrypted, w1) \<Rightarrow>
                      (case save pf encrypted w1 of
                         (Inl e, w2) \<Rightarrow> (Inl e, w2)
                       | (Inr u, w2) \<Rightarrow>
                           (Inr (), w2\<lparr>state := (state w2)\<lparr>pendingSync := hasPending w2\<rparr>\<rparr>)))))"

definition resetLockTimer :: "'n world \<Rightarrow> 'n world" where
  "resetLockTimer w = (if locked (state w) then w else w\<lparr>lockTimer := True\<rparr>)"

definition lock :: "'n world \<Rightarrow> 'n world" where
  "lock w =
     w\<lparr>state := (state w)\<lparr>locked := True, password := None, vault := None,
                           activeTable := None, searchQuery := []\<rparr>,
       lockTimer := False\<rparr>"

text \<open>The object \<open>unlock\<close> returns: \<open>{ok, firstRun}\<close>, or \<open>{ok: false}\<close> with no \<open>firstRun\<close>.\<close>

record unlock_result =
  ok :: bool
  firstRun :: "bool option"

definition unlock ::
  "('n, 'k) platform \<Rightarrow> jsstring \<Rightarrow> 'n world \<Rightarrow> (error + unlock_result) \<times> 'n world" where
  "unlock pf pw w =
     (case load pf w of
        (Inl e, w1) \<Rightarrow> (Inl e, w1)
      | (Inr None, w1) \<Rightarrow>
          (case persistVault pf
                  (w1\<lparr>state := (state w1)\<lparr>password := Some pw, vault := Some emptyVault,
                                          locked := False\<rparr>\<rparr>) of
             (Inl e, w2) \<Rightarrow> (Inl e, w2)
           | (Inr u, w2) \<Rightarrow> (Inr \<lparr>ok = True, firstRun = Some True\<rparr>, resetLockTimer w2))
      | (Inr (Some p), w1) \<Rightarrow>
          if \<not> verify pf p pw then (Inr \<lparr>ok = False, firstRun = None\<rparr>, w1)
          else
            (case decrypt pf p pw of
               Inl e \<Rightarrow> (Inl e, w1)
             | Inr json \<Rightarrow>
                 (case JSON_parse pf json of
                    Inl e \<Rightarrow> (Inl e, w1)
                  | Inr v \<Rightarrow>
                      (Inr \<lparr>ok = True, firstRun = Some False\<rparr>,
                       resetLockTimer
                         (w1\<lparr>state := (state w1)\<lparr>vault := Some v, password := Some pw,
                                                 locked := False\<rparr>\<rparr>)))))"

section \<open>app.js: tables, columns, rows, import\<close>

text \<open>
  Each operation reads \<open>state.vault.tables\<close>, which throws a TypeError while the vault is
  \<open>null\<close>, changes the vault in place, awaits \<open>persistVault\<close> and returns. \<open>set_vault\<close> is
  the change in place; \<open>persist_then\<close> is the \<open>await persistVault()\<close> followed by the
  \<open>return\<close>. Every assignment \<open>tables[name] = ...\<close> below is reached only when the lookup
  of \<open>name\<close> found nothing, so \<open>name\<close> is not an inherited one and the assignment creates
  an own property.
\<close>

definition set_vault :: "vault_data \<Rightarrow> 'n world \<Rightarrow> 'n world" where
  "set_vault v w = w\<lparr>state := (state w)\<lparr>vault := Some v\<rparr>\<rparr>"

definition set_table :: "jsstring \<Rightarrow> table \<Rightarrow> vault_data \<Rightarrow> vault_data" where
  "set_table name t v = v\<lparr>tables := (tables v)(name \<mapsto> Table t)\<rparr>"

definition persist_then ::
  "('n, 'k) platform \<Rightarrow> 'r \<Rightarrow> 'n world \<Rightarrow> (error + 'r) \<times> 'n world" where
  "persist_then pf r w =
     (case persistVault pf w of (Inl e, w1) \<Rightarrow> (Inl e, w1) | (Inr u, w1) \<Rightarrow> (Inr r, w1))"

definition createTable ::
  "('n, 'k) platform \<Rightarrow> jsstring \<Rightarrow> 'n world \<Rightarrow> (error + bool) \<times> 'n world" where
  "createTable pf name0 w =
     (let name = trim name0 in
      if name = [] then (Inr False, w)
      else
        (case vault (state w) of
           None \<Rightarrow> (Inl TypeError, w)
         | Some v \<Rightarrow>
             if lookup v name \<noteq> None then (Inr False, w)
             else persist_then pf True
                    (set_vault (set_table name \<lparr>columns = [js ''Column 1''], rows = []\<rparr> v) w)))"

text \<open>
  \<open>renameTable\<close> does not check that \<open>oldName\<close> exists. For a name with no property it
  binds \<open>newName\<close> to \<open>undefined\<close>, which every later lookup treats as no table, so the
  tables are left as they are here; for an inherited name it binds \<open>newName\<close> to the
  inherited value. \<open>delete\<close> removes an own property only.
\<close>

definition renameTable ::
  "('n, 'k) platform \<Rightarrow> jsstring \<Rightarrow> jsstring \<Rightarrow> 'n world \<Rightarrow> (error + bool) \<times> 'n world" where
  "renameTable pf oldName newName0 w =
     (let newName = trim newName0 in
      if newName = [] \<or> newName = oldName then (Inr False, w)
      else
        (case vault (state w) of
           None \<Rightarrow> (Inl TypeError, w)
         | Some v \<Rightarrow>
             if lookup v newName \<noteq> None then (Inr False, w)
             else
               (let v1 = v\<lparr>tables := ((tables v)(newName := lookup v oldName))(oldName := None)\<rparr>;
                    w1 = set_vault v1 w;
                    w2 = (if activeTable (state w1) = Some oldName
                          then w1\<lparr>state := (state w1)\<lparr>activeTable := Some newName\<rparr>\<rparr>
                          else w1)
                in persist_then pf True w2)))"

definition deleteTable ::
  "('n, 'k) platform \<Rightarrow> jsstring \<Rightarrow> 'n world \<Rightarrow> (error + unit) \<times> 'n world" where
  "deleteTable pf name w =
     (case vault (state w) of
        None \<Rightarrow> (Inl TypeError, w)
      | Some v \<Rightarrow>
          if lookup v name = None then (Inr (), w)
          else
            (let w1 = set_vault (v\<lparr>tables := (tables v)(name := None)\<rparr>) w;
                 w2 = (if activeTable (state w1) = Some name
                       then w1\<lparr>state := (state w1)\<lparr>activeTable := None\<rparr>\<rparr>
                       else w1)
             in persist_then pf () w2))"

text \<open>
  The column and row operations return at once when the lookup finds nothing. On a value
  that is no table, \<open>tbl.columns\<close> and \<open>tbl.rows\<close> are \<open>undefined\<close> and the first read of a
  property of either throws a TypeError, before anything is changed; \<open>renameColumn\<close> with
  a negative index returns before that read.
\<close>

definition addColumn ::
  "('n, 'k) platform \<Rightarrow> jsstring \<Rightarrow> jsstring \<Rightarrow> 'n world \<Rightarrow> (error + unit) \<times> 'n world" where
  "addColumn pf tableName colName0 w =
     (case vault (state w) of
        None \<Rightarrow> (Inl TypeError, w)
      | Some v \<Rightarrow>
          (case lookup v tableName of
             None \<Rightarrow> (Inr (), w)
           | Some Foreign \<Rightarrow> (Inl TypeError, w)
           | Some (Table tbl) \<Rightarrow>
               (let colName = (if trim colName0 \<noteq> [] then trim colName0
                               else js ''Column '' @ decimal (length (columns tbl) + 1));
                    tbl1 = tbl\<lparr>columns := columns tbl @ [colName],
                               rows := map (\<lambda>row. row @ [Some []]) (rows tbl)\<rparr>
                in persist_then pf () (set_vault (set_table tableName tbl1 v) w))))"

definition renameColumn ::
  "('n, 'k) platform \<Rightarrow> jsstring \<Rightarrow> int \<Rightarrow> jsstring \<Rightarrow> 'n world
     \<Rightarrow> (error + unit) \<times> 'n world" where
  "renameColumn pf tableName colIndex newName w =
     (case vault (state w) of
        None \<Rightarrow> (Inl TypeError, w)
      | Some v \<Rightarrow>
          (case lookup v tableName of
             None \<Rightarrow> (Inr (), w)
           | Some Foreign \<Rightarrow> if colIndex < 0 then (Inr (), w) else (Inl TypeError, w)
           | Some (Table tbl) \<Rightarrow>
               if colIndex < 0 \<or> int (length (columns tbl)) \<le> colIndex then (Inr (), w)
               else
                 (let c = (if trim newName \<noteq> [] then trim newName
                           else columns tbl ! nat colIndex);
                      tbl1 = tbl\<lparr>columns := (columns tbl)[nat colIndex := c]\<rparr>
                  in persist_then pf () (set_vault (set_table tableName tbl1 v) w))))"

definition deleteColumn ::
  "('n, 'k) platform \<Rightarrow> jsstring \<Rightarrow> int \<Rightarrow> 'n world \<Rightarrow> (error + unit) \<times> 'n world" where
  "deleteColumn pf tableName colIndex w =
     (case vault (state w) of
        None \<Rightarrow> (Inl TypeError, w)
      | Some v \<Rightarrow>
          (case lookup v tableName of
             None \<Rightarrow> (Inr (), w)
           | Some Foreign \<Rightarrow> (Inl TypeError, w)
           | Some (Table tbl) \<Rightarrow>
               if length (columns tbl) \<le> 1 then (Inr (), w)
               else
                 (let tbl1 = tbl\<lparr>columns := splice1 colIndex (columns tbl),
                                 rows := map (splice1 colIndex) (rows tbl)\<rparr>
                  in persist_then pf () (set_vault (set_table tableName tbl1 v) w))))"

definition addRow ::
  "('n, 'k) platform \<Rightarrow> jsstring \<Rightarrow> 'n world \<Rightarrow> (error + unit) \<times> 'n world" where
  "addRow pf tableName w =
     (case vault (state w) of
        None \<Rightarrow> (Inl TypeError, w)
      | Some v \<Rightarrow>
          (case lookup v tableName of
             None \<Rightarrow> (Inr (), w)
           | Some Foreign \<Rightarrow> (Inl TypeError, w)
           | Some (Table tbl) \<Rightarrow>
               (let tbl1 = tbl\<lparr>rows := rows tbl @ [replicate (length (columns tbl)) (Some [])]\<rparr>
                in persist_then pf () (set_vault (set_table tableName tbl1 v) w))))"

text \<open>
  \<open>updateCell\<close>: \<open>tbl.rows[rowIndex]\<close> is \<open>undefined\<close> unless \<open>rowIndex\<close> is the index of a
  row, and assigning to a property of \<open>undefined\<close> throws a TypeError.
\<close>

definition updateCell ::
  "('n, 'k) platform \<Rightarrow> jsstring \<Rightarrow> int \<Rightarrow> int \<Rightarrow> jsstring \<Rightarrow> 'n world
     \<Rightarrow> (error + unit) \<times> 'n world" where
  "updateCell pf tableName rowIndex colIndex v0 w =
     (case vault (state w) of
        None \<Rightarrow> (Inl TypeError, w)
      | Some v \<Rightarrow>
          (case lookup v tableName of
             None \<Rightarrow> (Inr (), w)
           | Some Foreign \<Rightarrow> (Inl TypeError, w)
           | Some (Table tbl) \<Rightarrow>
               (case element (rows tbl) rowIndex of
                  None \<Rightarrow> (Inl TypeError, w)
                | Some row \<Rightarrow>
                    (let tbl1 = tbl\<lparr>rows := (rows tbl)[nat rowIndex := assign row colIndex v0]\<rparr>
                     in persist_then pf () (set_vault (set_table tableName tbl1 v) w)))))"

definition deleteRow ::
  "('n, 'k) platform \<Rightarrow> jsstring \<Rightarrow> int \<Rightarrow> 'n world \<Rightarrow> (error + unit) \<times> 'n world" where
  "deleteRow pf tableName rowIndex w =
     (case vault (state w) of
        None \<Rightarrow> (Inl TypeError, w)
      | Some v \<Rightarrow>
          (case lookup v tableName of
             None \<Rightarrow> (Inr (), w)
           | Some Foreign \<Rightarrow> (Inl TypeError, w)
           | Some (Table tbl) \<Rightarrow>
               (let tbl1 = tbl\<lparr>rows := splice1 rowIndex (rows tbl)\<rparr>
                in persist_then pf () (set_vault (set_table tableName tbl1 v) w))))"

text \<open>
  \<open>parseRow\<close> of \<open>importCSV\<close>: the loop over the characters of a line, with the field so
  far, the quote flag and the fields already closed.
\<close>

fun parseRow_loop :: "jsstring \<Rightarrow> jsstring \<Rightarrow> bool \<Rightarrow> jsstring list \<Rightarrow> jsstring list" where
  "parseRow_loop [] cur inQ result = result @ [cur]"
| "parseRow_loop (c # line) cur inQ result =
     (if c = 0x22 then parseRow_loop line cur (\<not> inQ) result
      else if c = 0x2C \<and> \<not> inQ then parseRow_loop line [] inQ (result @ [cur])
      else parseRow_loop line (cur @ [c]) inQ result)"

definition parseRow :: "jsstring \<Rightarrow> jsstring list" where
  "parseRow line = parseRow_loop line [] False []"

definition csv_lines :: "jsstring \<Rightarrow> jsstring list" where
  "csv_lines csvText = filter (\<lambda>l. l \<noteq> []) (map trim (split_lines (trim csvText)))"

text \<open>
  \<open>importCSV\<close> appends to an existing table with \<open>rows.push(...rows)\<close>, one argument per
  data line: more lines than the engine accepts arguments throw a RangeError with nothing
  appended. A new table takes the parsed rows as they are.
\<close>

definition importCSV ::
  "('n, 'k) platform \<Rightarrow> jsstring \<Rightarrow> jsstring \<Rightarrow> 'n world \<Rightarrow> (error + bool) \<times> 'n world" where
  "importCSV pf tableName0 csvText w =
     (case csv_lines csvText of
        [] \<Rightarrow> (Inr False, w)
      | header # body \<Rightarrow>
          (let cols = parseRow header;
               rws = map (\<lambda>l. map Some (parseRow l)) body;
               tableName = (if trim tableName0 \<noteq> [] then trim tableName0
                            else js ''Imported Table'')
           in case vault (state w) of
                None \<Rightarrow> (Inl TypeError, w)
              | Some v \<Rightarrow>
                  (case lookup v tableName of
                     Some (Table tbl) \<Rightarrow>
                       if max_arguments pf < length rws then (Inl RangeError, w)
                       else persist_then pf True
                              (set_vault (set_table tableName (tbl\<lparr>rows := rows tbl @ rws\<rparr>) v) w)
                   | Some Foreign \<Rightarrow> (Inl TypeError, w)
                   | None \<Rightarrow>
                       persist_then pf True
                         (set_vault (set_table tableName \<lparr>columns = cols, rows = rws\<rparr> v) w))))"

text \<open>The vault-mutating operations as commands, and a run of them one after the other.\<close>

datatype op =
    CreateTable jsstring
  | RenameTable jsstring jsstring
  | DeleteTable jsstring
  | AddColumn jsstring jsstring
  | RenameColumn jsstring int jsstring
  | DeleteColumn jsstring int
  | AddRow jsstring
  | UpdateCell jsstring int int jsstring
  | DeleteRow jsstring int
  | ImportCSV jsstring jsstring

fun apply_op :: "('n, 'k) platform \<Rightarrow> op \<Rightarrow> 'n world \<Rightarrow> 'n world" where
  "apply_op pf (CreateTable n) w = snd (createTable pf n w)"
| "apply_op pf (RenameTable n m) w = snd (renameTable pf n m w)"
| "apply_op pf (DeleteTable n) w = snd (deleteTable pf n w)"
| "apply_op pf (AddColumn n c) w = snd (addColumn pf n c w)"
| "apply_op pf (RenameColumn n i c) w = snd (renameColumn pf n i c w)"
| "apply_op pf (DeleteColumn n i) w = snd (deleteColumn pf n i w)"
| "apply_op pf (AddRow n) w = snd (addRow pf n w)"
| "apply_op pf (UpdateCell n i j x) w = snd (updateCell pf n i j x w)"
| "apply_op pf (DeleteRow n i) w = snd (deleteRow pf n i w)"
| "apply_op pf (ImportCSV n t) w = snd (importCSV pf n t w)"

fun run_ops :: "('n, 'k) platform \<Rightarrow> op list \<Rightarrow> 'n world \<Rightarrow> 'n world" where
  "run_ops pf [] w = w"
| "run_ops pf (x # xs) w = run_ops pf xs (apply_op pf x w)"

section \<open>ui.js: the change-password handler\<close>



section \<open>What the platform promises\<close>

text \<open>
  The contracts of AES-GCM that the properties below rest on: it decrypts what it
  encrypted under the same key and nonce; under another key the tag does not verify.
\<close>

definition aead_correct :: "('n, 'k) platform \<Rightarrow> bool" where
  "aead_correct pf =
     (\<forall>k n m. aes_gcm_decrypt pf k n (aes_gcm_encrypt pf k n m) = Some m)"


text \<open>
  A string is well formed when every surrogate code unit is part of a pair: a high
  surrogate followed by a low one.
\<close>

fun well_formed :: "jsstring \<Rightarrow> bool" where
  "well_formed [] = True"
| "well_formed [c] = (\<not> is_high c \<and> \<not> is_low c)"
| "well_formed (c # d # s) =
     (if is_high c then is_low d \<and> well_formed s
      else \<not> is_low c \<and> well_formed (d # s))"

definition starts_with_bom :: "jsstring \<Rightarrow> bool" where
  "starts_with_bom s = (case s of [] \<Rightarrow> False | c # r \<Rightarrow> c = 0xFEFF)"

text \<open>
  \<open>encrypt\<close> hands three buffers to \<open>b64encode\<close>: the salt, the nonce and the ciphertext
  (with AES-GCM, the UTF-8 bytes of the plaintext and a tag of 16 bytes). The plaintext
  fits when none of the three is longer than the engine accepts arguments.
  \<open>persistVault\<close> encrypts the JSON text of the vault when there is a vault and a non-empty
  password.
\<close>

definition ciphertext_of ::
  "('n, 'k) platform \<Rightarrow> jsstring \<Rightarrow> jsstring \<Rightarrow> 'n world \<Rightarrow> byte list" where
  "ciphertext_of pf plaintext pw w =
     aes_gcm_encrypt pf (deriveKey pf pw (map (entropy w) [0..<SALT_BYTES]))
       (map (\<lambda>i. entropy w (i + SALT_BYTES)) [0..<IV_BYTES]) (TextEncoder_encode plaintext)"

definition encrypt_fits ::
  "('n, 'k) platform \<Rightarrow> jsstring \<Rightarrow> jsstring \<Rightarrow> 'n world \<Rightarrow> bool" where
  "encrypt_fits pf plaintext pw w =
     (SALT_BYTES \<le> max_arguments pf \<and> IV_BYTES \<le> max_arguments pf \<and>
      length (ciphertext_of pf plaintext pw w) \<le> max_arguments pf)"

definition persist_fits :: "('n, 'k) platform \<Rightarrow> 'n world \<Rightarrow> bool" where
  "persist_fits pf w =
     (case vault (state w) of
        None \<Rightarrow> True
      | Some v \<Rightarrow>
          (case password (state w) of
             None \<Rightarrow> True
           | Some pw \<Rightarrow> pw = [] \<or> encrypt_fits pf (JSON_stringify pf v) pw w))"

section \<open>The row invariant\<close>

definition table_ok :: "table \<Rightarrow> bool" where
  "table_ok tbl = list_all (\<lambda>row. length row = length (columns tbl)) (rows tbl)"

definition rows_inv :: "vault_data \<Rightarrow> bool" where
  "rows_inv v = (\<forall>name tbl. tables v name = Some (Table tbl) \<longrightarrow> table_ok tbl)"

definition world_inv :: "'n world \<Rightarrow> bool" where
  "world_inv w = (case vault (state w) of None \<Rightarrow> True | Some v \<Rightarrow> rows_inv v)"

text \<open>
  When an operation keeps the invariant whatever the table holds. \<open>updateCell\<close> does when
  the column index is below the number of columns or is not an array index at all;
  \<open>importCSV\<close> does when every data line has as many fields as the table it goes to has
  columns (for a new table: as the header line has fields). The other operations always
  do, and so does every operation on a name whose value is no table.
\<close>

fun op_safe :: "op \<Rightarrow> 'n world \<Rightarrow> bool" where
  "op_safe (UpdateCell n i j x) w =
     (case getTable w n of
        None \<Rightarrow> True
      | Some Foreign \<Rightarrow> True
      | Some (Table tbl) \<Rightarrow> j < int (length (columns tbl)) \<or> 4294967295 \<le> j)"
| "op_safe (ImportCSV n0 t) w =
     (case csv_lines t of
        [] \<Rightarrow> True
      | header # body \<Rightarrow>
          (let name = (if trim n0 \<noteq> [] then trim n0 else js ''Imported Table'')
           in case getTable w name of
                Some (Table tbl) \<Rightarrow>
                  list_all (\<lambda>l. length (parseRow l) = length (columns tbl)) body
              | Some Foreign \<Rightarrow> True
              | None \<Rightarrow> list_all (\<lambda>l. length (parseRow l) = length (parseRow header)) body))"
| "op_safe (CreateTable n) w = True"
| "op_safe (RenameTable n m) w = True"
| "op_safe (DeleteTable n) w = True"
| "op_safe (AddColumn n c) w = True"
| "op_safe (RenameColumn n i c) w = True"
| "op_safe (DeleteColumn n i) w = True"
| "op_safe (AddRow n) w = True"
| "op_safe (DeleteRow n i) w = True"

fun safe_run :: "('n, 'k) platform \<Rightarrow> op list \<Rightarrow> 'n world \<Rightarrow> bool" where
  "safe_run pf [] w = True"
| "safe_run pf (x # xs) w = (op_safe x w \<and> safe_run pf xs (apply_op pf x w))"

section \<open>A reference platform\<close>

text \<open>
  A platform to run the program on: the reference remote as network; a key derivation
  that adds up the bytes of password and salt; a cipher that tags the ciphertext with its
  one-byte key; a JSON that writes every vault as \<open>{}\<close> and reads every text as the empty
  vault; an engine that accepts 65536 arguments in a call. It meets the two contracts
  above.
\<close>

definition ref_pbkdf2 :: "byte list \<Rightarrow> byte list \<Rightarrow> nat \<Rightarrow> byte" where
  "ref_pbkdf2 pw s n = sum_list pw + sum_list s"

definition ref_encrypt :: "byte \<Rightarrow> byte list \<Rightarrow> byte list \<Rightarrow> byte list" where
  "ref_encrypt k n m = k # map (\<lambda>b. b + k) m"

definition ref_decrypt :: "byte \<Rightarrow> byte list \<Rightarrow> byte list \<Rightarrow> byte list option" where
  "ref_decrypt k n c =
     (case c of [] \<Rightarrow> None
      | t # r \<Rightarrow> if t = k then Some (map (\<lambda>b. b - k) r) else None)"

definition ref_platform :: "(github_server, byte) platform" where
  "ref_platform =
     \<lparr>fetch = server_fetch, pbkdf2 = ref_pbkdf2, aes_gcm_encrypt = ref_encrypt,
      aes_gcm_decrypt = ref_decrypt,
      JSON_stringify = (\<lambda>v. js ''{}''), JSON_parse = (\<lambda>s. Inr emptyVault),
      max_arguments = 65536\<rparr>"

text \<open>
  Worlds to start from: a locked session with nothing stored, no remote configured and a
  server with no file (\<open>world0\<close>); the same with a configuration (\<open>world_cfg\<close>), with the
  server holding an envelope (\<open>world_remote\<close>) and unreachable as well (\<open>world_down\<close>);
  and a session with the pending flag set and a configuration whose token is empty
  (\<open>world_partial\<close>).
\<close>

definition server0 :: github_server where
  "server0 = \<lparr>link = Up, stored = None, revision = 0, requests = []\<rparr>"

definition state0 :: app_state where
  "state0 = \<lparr>locked = True, password = None, vault = None, activeTable = None,
             searchQuery = [], pendingSync = False\<rparr>"

definition world0 :: "github_server world" where
  "world0 = \<lparr>state = state0, lockTimer = False,
             localStorage = \<lparr>mv_vault = None, mv_pending = None, mv_gh_cfg = None\<rparr>,
             network = server0, entropy = (\<lambda>i. of_nat i)\<rparr>"

definition env0 :: envelope where
  "env0 = \<lparr>salt = js ''c2FsdA=='', iv = js ''aXY='', ciphertext = js ''Y3Q=''\<rparr>"

definition world_cfg :: "github_server world" where
  "world_cfg = setConfig (js ''me'') (js ''vault'') (js ''t0k'') world0"

definition world_down :: "github_server world" where
  "world_down = world_cfg\<lparr>network := server0\<lparr>link := Down, stored := Some env0\<rparr>\<rparr>"

definition world_remote :: "github_server world" where
  "world_remote = world_cfg\<lparr>network := server0\<lparr>stored := Some env0\<rparr>\<rparr>"

definition world_partial :: "github_server world" where
  "world_partial = markPending (setConfig (js ''me'') (js ''vault'') [] world0)"

text \<open>
  The world after a first run with the password \<open>hunter2duck\<close> on an empty device, and
  the same world locked again.
\<close>

definition pw1 :: jsstring where
  "pw1 = js ''hunter2duck''"

definition world_first :: "github_server world" where
  "world_first = snd (unlock ref_platform pw1 world0)"

definition world_locked :: "github_server world" where
  "world_locked = lock world_first"

text \<open>
  After the first run: a table \<open>t\<close> is created and given one row; and a CSV text whose
  header has two fields and whose only data line has one.
\<close>

definition world_table :: "github_server world" where
  "world_table = run_ops ref_platform [CreateTable (js ''t''), AddRow (js ''t'')] world_first"

definition csv_ragged :: jsstring where
  "csv_ragged = js ''a,b'' @ [0x0A] @ js ''1''"

text \<open>A run that keeps the invariant: every operation in it is safe where it runs.\<close>

definition ops_demo :: "op list" where
  "ops_demo =
     [CreateTable (js ''t''), AddRow (js ''t''), AddColumn (js ''t'') [],
      UpdateCell (js ''t'') 0 1 (js ''alice''), DeleteColumn (js ''t'') 0,
      ImportCSV (js ''t'') (js ''x'' @ [0x0A] @ js ''bob'')]"

text \<open>A plaintext with a character outside the basic plane, and a new password.\<close>

definition plain1 :: jsstring where
  "plain1 = js ''secret '' @ [0xD83D, 0xDE00]"

text \<open>
  The reference platform on an engine that accepts 20 arguments only, and a plaintext of
  32 bytes.
\<close>

definition narrow_platform :: "(github_server, byte) platform" where
  "narrow_platform = ref_platform\<lparr>max_arguments := 20\<rparr>"

definition plain_long :: jsstring where
  "plain_long = js ''a plaintext of thirty-two bytes!''"

definition pw2 :: jsstring where
  "pw2 = js ''correct horse''"

section \<open>The network calls change nothing but the network\<close>

lemma do_fetch_frame: "\<exists>n. snd (do_fetch pf req w) = w\<lparr>network := n\<rparr>"
  by (auto simp: do_fetch_def split: prod.splits)

lemma getFileSha_frame: "\<exists>n. snd (getFileSha pf cfg w) = w\<lparr>network := n\<rparr>"
  using do_fetch_frame [of pf "GET_contents cfg" w]
  by (auto simp: getFileSha_def split: prod.splits option.splits json_body.splits)

lemma pull_frame: "\<exists>n. snd (pull pf w) = w\<lparr>network := n\<rparr>"
proof (cases "getConfig w")
  case None
  have "w = w\<lparr>network := network w\<rparr>" by simp
  with None show ?thesis unfolding pull_def by (metis option.simps(4) snd_conv)
next
  case (Some cfg)
  then show ?thesis
    using do_fetch_frame [of pf "GET_contents cfg" w]
    by (auto simp: pull_def split: prod.splits option.splits json_body.splits)
qed

lemma push_frame: "\<exists>n. snd (push pf p w) = w\<lparr>network := n\<rparr>"
proof (cases "getConfig w")
  case None
  have "w = w\<lparr>network := network w\<rparr>" by simp
  with None show ?thesis unfolding push_def by (metis option.simps(4) snd_conv)
next
  case (Some cfg)
  show ?thesis
  proof (cases "btoa (stringify_envelope p)")
    case (Inl e)
    have "w = w\<lparr>network := network w\<rparr>" by simp
    moreover have "snd (push pf p w) = w" using Some Inl by (simp add: push_def)
    ultimately show ?thesis by metis
  next
    case c: (Inr c)
    obtain r w1 where g: "getFileSha pf cfg w = (r, w1)" by (cases "getFileSha pf cfg w")
    obtain n1 where w1: "w1 = w\<lparr>network := n1\<rparr>"
      using getFileSha_frame [of pf cfg w] g by auto
    show ?thesis
    proof (cases r)
      case (Inl e)
      with Some c g w1 show ?thesis by (auto simp: push_def)
    next
      case (Inr s)
      define body where
        "body = \<lparr>message = js ''vault update'', content = p, sha = (if truthy s then s else None)\<rparr>"
      obtain n2 where "snd (do_fetch pf (PUT_contents cfg body) w1) = w1\<lparr>network := n2\<rparr>"
        using do_fetch_frame [of pf "PUT_contents cfg body" w1] by blast
      with Some c g w1 Inr show ?thesis
        by (auto simp: push_def Let_def body_def split: prod.splits option.splits)
    qed
  qed
qed

lemma syncToGitHub_frame: "\<exists>n. snd (syncToGitHub pf p w) = w\<lparr>network := n\<rparr>"
proof (cases "isConfigured w")
  case True
  then show ?thesis using push_frame [of pf p w] by (simp add: syncToGitHub_def)
next
  case False
  have "w = w\<lparr>network := network w\<rparr>" by simp
  with False show ?thesis unfolding syncToGitHub_def by (metis snd_conv)
qed

lemma syncFromGitHub_frame: "\<exists>n. snd (syncFromGitHub pf w) = w\<lparr>network := n\<rparr>"
proof (cases "isConfigured w")
  case True
  then show ?thesis using pull_frame [of pf w] by (simp add: syncFromGitHub_def)
next
  case False
  have "w = w\<lparr>network := network w\<rparr>" by simp
  with False show ?thesis unfolding syncFromGitHub_def by (metis snd_conv)
qed

section \<open>storage.js: save\<close>

lemma save_result: "fst (save pf p w) = Inr ()"
  by (simp add: save_def split: prod.splits sum.splits)

lemma save_world:
  "\<exists>n. snd (save pf p w) =
     (if isl (fst (syncToGitHub pf p (saveLocal p w))) then markPending else clearPending)
       ((saveLocal p w)\<lparr>network := n\<rparr>)"
  using syncToGitHub_frame [of pf p "saveLocal p w"]
  by (auto simp: save_def split: prod.splits sum.splits)




lemma replicate_two: "replicate 2 x = [x, x]"
  by (simp add: numeral_2_eq_2)

lemma replicate_one: "replicate 1 x = [x]"
  by simp

lemmas run_defs =
  world_cfg_def world_down_def world_remote_def world_partial_def world0_def state0_def
  server0_def env0_def isConfigured_def getConfig_def setConfig_def js_def truthy_def
  push_def pull_def saveLocal_def loadLocal_def getFileSha_def do_fetch_def
  ref_platform_def server_fetch_def res_ok_def Let_def markPending_def clearPending_def
  hasPending_def stringify_envelope_def QuoteJSONString_def quote_unit_def is_high_def
  is_low_def btoa_def b64_char_def replicate_two replicate_one

text \<open>
  An envelope with a char code above 255 never leaves the device: \<open>push\<close> throws before
  any request is sent, and \<open>save\<close> sets the pending flag.
\<close>

lemma push_wide_char_code:
  "fst (push ref_platform \<lparr>salt = [0x100], iv = [], ciphertext = []\<rparr> world_remote)
     = Inl InvalidCharacterError \<and>
   snd (push ref_platform \<lparr>salt = [0x100], iv = [], ciphertext = []\<rparr> world_remote)
     = world_remote \<and>
   hasPending (snd (save ref_platform \<lparr>salt = [0x100], iv = [], ciphertext = []\<rparr> world_remote))"
  by (simp add: run_defs save_def syncToGitHub_def)

lemma save_frame:
  "\<exists>n b. snd (save pf p w) =
     w\<lparr>localStorage := (localStorage w)\<lparr>mv_vault := Some p, mv_pending := b\<rparr>, network := n\<rparr>"
proof -
  obtain n where n: "snd (save pf p w) =
     (if isl (fst (syncToGitHub pf p (saveLocal p w))) then markPending else clearPending)
       ((saveLocal p w)\<lparr>network := n\<rparr>)"
    using save_world [of pf p w] by blast
  show ?thesis
  proof (cases "isl (fst (syncToGitHub pf p (saveLocal p w)))")
    case True
    with n have "snd (save pf p w) =
      w\<lparr>localStorage := (localStorage w)\<lparr>mv_vault := Some p, mv_pending := Some (js ''1'')\<rparr>,
        network := n\<rparr>"
      by (simp add: markPending_def saveLocal_def)
    then show ?thesis by blast
  next
    case False
    with n have "snd (save pf p w) =
      w\<lparr>localStorage := (localStorage w)\<lparr>mv_vault := Some p, mv_pending := None\<rparr>,
        network := n\<rparr>"
      by (simp add: clearPending_def saveLocal_def)
    then show ?thesis by blast
  qed
qed






section \<open>storage.js: load\<close>





lemma load_frame:
  "state (snd (load pf w)) = state w \<and> lockTimer (snd (load pf w)) = lockTimer w \<and>
   entropy (snd (load pf w)) = entropy w \<and> getConfig (snd (load pf w)) = getConfig w"
proof -
  obtain n where n: "snd (syncFromGitHub pf w) = w\<lparr>network := n\<rparr>"
    using syncFromGitHub_frame [of pf w] by blast
  obtain r w1 where rw: "syncFromGitHub pf w = (r, w1)" by (cases "syncFromGitHub pf w")
  with n have w1: "w1 = w\<lparr>network := n\<rparr>" by simp
  show ?thesis
    by (cases r; cases "projr r") (auto simp: load_def rw w1 saveLocal_def getConfig_def)
qed


section \<open>crypto.js: what an envelope holds\<close>

lemma ucast_byte_id: "(ucast (ucast (b :: byte) :: 16 word) :: byte) = b"
  by (simp add: ucast_up_ucast_id is_up)

lemma map_ucast_byte_id: "map (ucast :: 16 word \<Rightarrow> byte) (map (ucast :: byte \<Rightarrow> 16 word) buf) = buf"
  by (induction buf) (simp_all add: ucast_byte_id)

lemma div_less_mult: "cp < k * n \<Longrightarrow> cp div n < k" for cp :: nat
  by (rule less_mult_imp_div_less)

lemma b64_char_index:
  assumes "n < 64"
  shows "b64_index (b64_char n) = Some n" and "b64_char n \<noteq> 0x3D"
    and "\<not> is_ascii_space (b64_char n)"
proof -
  consider "n < 26" | "26 \<le> n" "n < 52" | "52 \<le> n" "n < 62" | "n = 62" | "n = 63"
    using assms by linarith
  then have "b64_index (b64_char n) = Some n \<and> b64_char n \<noteq> 0x3D \<and>
     \<not> is_ascii_space (b64_char n)"
  proof cases
    case 1
    define c :: "16 word" where "c = of_nat (0x41 + n)"
    have u: "unat c = 0x41 + n" unfolding c_def unat_of_nat using 1 by simp
    have "0x41 \<le> c" "c \<le> 0x5A" using 1 u by (simp_all add: word_le_nat_alt)
    moreover have "c \<noteq> 0x3D" "\<not> is_ascii_space c"
      using u by (auto simp: is_ascii_space_def word_unat_eq_iff)
    moreover have "b64_char n = c" using 1 by (simp only: b64_char_def c_def if_True)
    ultimately show ?thesis using u by (simp add: b64_index_def)
  next
    case 2
    define c :: "16 word" where "c = of_nat (0x61 + (n - 26))"
    have u: "unat c = 0x61 + (n - 26)" unfolding c_def unat_of_nat using 2 by simp
    have "\<not> (0x41 \<le> c \<and> c \<le> 0x5A)" "0x61 \<le> c" "c \<le> 0x7A"
      using 2 u by (simp_all add: word_le_nat_alt)
    moreover have "c \<noteq> 0x3D" "\<not> is_ascii_space c"
      using u by (auto simp: is_ascii_space_def word_unat_eq_iff)
    moreover have "b64_char n = c"
    proof -
      have "\<not> n < 26" "n < 52" using 2 by simp_all
      then show ?thesis unfolding b64_char_def c_def by (simp only: if_True if_False)
    qed
    ultimately show ?thesis using 2 u by (simp add: b64_index_def)
  next
    case 3
    define c :: "16 word" where "c = of_nat (0x30 + (n - 52))"
    have u: "unat c = 0x30 + (n - 52)" unfolding c_def unat_of_nat using 3 by simp
    have "\<not> (0x41 \<le> c \<and> c \<le> 0x5A)" "\<not> (0x61 \<le> c \<and> c \<le> 0x7A)" "0x30 \<le> c" "c \<le> 0x39"
      using 3 u by (simp_all add: word_le_nat_alt)
    moreover have "c \<noteq> 0x3D" "\<not> is_ascii_space c"
      using 3 u by (auto simp: is_ascii_space_def word_unat_eq_iff)
    moreover have "b64_char n = c"
    proof -
      have "\<not> n < 26" "\<not> n < 52" "n < 62" using 3 by simp_all
      then show ?thesis unfolding b64_char_def c_def by (simp only: if_True if_False)
    qed
    ultimately show ?thesis using 3 u by (simp add: b64_index_def)
  next
    case 4
    then show ?thesis by (simp add: b64_char_def b64_index_def is_ascii_space_def)
  next
    case 5
    then show ?thesis by (simp add: b64_char_def b64_index_def is_ascii_space_def)
  qed
  then show "b64_index (b64_char n) = Some n" and "b64_char n \<noteq> 0x3D"
    and "\<not> is_ascii_space (b64_char n)" by simp_all
qed

lemma sextets_bound:
  "list_all (\<lambda>a. a < 256) bs \<Longrightarrow> list_all (\<lambda>n. n < 64) (b64_sextets bs)"
proof (induction bs rule: b64_sextets.induct)
  case (1 a b c r)
  have "a div 4 < 64" "b div 16 < 16" "c div 64 < 4"
    using 1(2) by (simp_all add: div_less_mult)
  moreover have "a mod 4 < 4" "b mod 16 < 16" "c mod 64 < 64" by simp_all
  ultimately have "a div 4 < 64" "a mod 4 * 16 + b div 16 < 64" "b mod 16 * 4 + c div 64 < 64"
    "c mod 64 < 64" by linarith+
  then show ?case using 1 by simp
next
  case (2 a b)
  have "a div 4 < 64" "b div 16 < 16" using 2 by (simp_all add: div_less_mult)
  moreover have "a mod 4 < 4" "b mod 16 < 16" by simp_all
  ultimately have "a div 4 < 64" "a mod 4 * 16 + b div 16 < 64" "b mod 16 * 4 < 64"
    by linarith+
  then show ?case by simp
next
  case (3 a)
  have "a div 4 < 64" using 3 by (simp add: div_less_mult)
  moreover have "a mod 4 < 4" by simp
  ultimately have "a div 4 < 64" "a mod 4 * 16 < 64" by linarith+
  then show ?case by simp
next
  case 4
  then show ?case by simp
qed

lemma bytes_sextets:
  "list_all (\<lambda>a. a < 256) bs \<Longrightarrow> b64_bytes (b64_sextets bs) = bs"
proof (induction bs rule: b64_sextets.induct)
  case (1 a b c r)
  have b: "b div 16 < 16" and c: "c div 64 < 4" using 1(2) by (simp_all add: div_less_mult)
  have 1: "a div 4 * 4 + (a mod 4 * 16 + b div 16) div 16 = a" using b by simp
  have 2: "(a mod 4 * 16 + b div 16) mod 16 * 16 + (b mod 16 * 4 + c div 64) div 4 = b"
    using b c by simp
  have 3: "(b mod 16 * 4 + c div 64) mod 4 * 64 + c mod 64 = c" using c by simp
  show ?case using 1 2 3 "1.IH" "1.prems" by simp
next
  case (2 a b)
  have b: "b div 16 < 16" using 2 by (simp add: div_less_mult)
  have 1: "a div 4 * 4 + (a mod 4 * 16 + b div 16) div 16 = a" using b by simp
  have 2: "(a mod 4 * 16 + b div 16) mod 16 * 16 + b mod 16 * 4 div 4 = b" using b by simp
  show ?case using 1 2 by simp
next
  case (3 a)
  have "a div 4 * 4 + a mod 4 * 16 div 16 = a" by simp
  then show ?case by simp
next
  case 4
  then show ?case by simp
qed

lemma sextets_length:
  "(length (b64_sextets bs) + (3 - length bs mod 3) mod 3) mod 4 = 0 \<and>
   length (b64_sextets bs) mod 4 \<noteq> 1 \<and>
   (length bs mod 3 \<noteq> 0 \<longrightarrow> b64_sextets bs \<noteq> [])"
proof (induction bs rule: b64_sextets.induct)
  case (1 a b c r)
  have m: "Suc (Suc (Suc (length r))) mod 3 = length r mod 3"
  proof -
    have "Suc (Suc (Suc (length r))) = length r + 3" by simp
    then show ?thesis by (simp only: mod_add_self2)
  qed
  have l: "length (b64_sextets (a # b # c # r)) = 4 + length (b64_sextets r)" by simp
  have a: "(4 + k) mod 4 = k mod 4" for k :: nat by simp
  from 1 have i: "(length (b64_sextets r) + (3 - length r mod 3) mod 3) mod 4 = 0"
    "length (b64_sextets r) mod 4 \<noteq> 1" by simp_all
  have "(4 + length (b64_sextets r) + (3 - length r mod 3) mod 3) mod 4 = 0"
    using i(1) a [of "length (b64_sextets r) + (3 - length r mod 3) mod 3"]
    by (simp add: add.assoc)
  moreover have "(4 + length (b64_sextets r)) mod 4 \<noteq> 1"
    using i(2) a [of "length (b64_sextets r)"] by simp
  ultimately show ?case unfolding l by (simp add: m)
qed simp_all

lemma strip_padding_append:
  assumes "length (xs @ replicate p 0x3D) mod 4 = 0" and "p \<le> 2"
    and "\<forall>c \<in> set xs. c \<noteq> 0x3D" and "0 < p \<longrightarrow> xs \<noteq> []"
  shows "strip_padding (xs @ replicate p 0x3D) = xs"
proof -
  consider "p = 0" | "p = 1" | "p = 2" using assms(2) by linarith
  then show ?thesis
  proof cases
    case 1
    then show ?thesis using assms(3) by (cases "xs = []") (auto simp: strip_padding_def)
  next
    case 2
    then have "xs \<noteq> []" using assms(4) by simp
    then have "last xs \<noteq> 0x3D" using assms(3) by simp
    then show ?thesis using 2 \<open>xs \<noteq> []\<close> assms(1) by (simp add: strip_padding_def)
  next
    case 3
    then have "xs \<noteq> []" using assms(4) by simp
    have r: "replicate p (0x3D :: 16 word) = [0x3D, 0x3D]" using 3 by (simp add: numeral_2_eq_2)
    have b: "butlast (xs @ [0x3D, 0x3D :: 16 word]) = xs @ [0x3D]"
      by (simp add: butlast_append)
    show ?thesis using assms(1) unfolding r strip_padding_def b by simp
  qed
qed

lemma unat_ucast_byte: "unat (ucast b :: 16 word) = unat b" for b :: byte
  using unsigned_less [of b, where 'a = nat]
  by (simp add: unsigned_ucast_eq take_bit_nat_eq_self)

lemma unat_byte_small: "unat b < 256" for b :: byte
  using unsigned_less [of b, where 'a = nat] by simp

lemma btoa_bytes:
  fixes buf :: "byte list"
  shows "btoa (map ucast buf) =
     Inr (map b64_char (b64_sextets (map unat buf)) @
          replicate ((3 - length buf mod 3) mod 3) 0x3D)"
proof -
  have "ucast b \<le> (0xFF :: 16 word)" for b :: byte
    using unat_byte_small [of b] by (simp add: word_le_nat_alt unat_ucast_byte)
  then have "list_all (\<lambda>c. c \<le> 0xFF) (map (ucast :: byte \<Rightarrow> 16 word) buf)"
    by (simp add: list_all_iff)
  then show ?thesis
    by (simp add: btoa_def comp_def unat_ucast_byte)
qed

lemma atob_sextets:
  assumes "list_all (\<lambda>n. n < 64) sx" and "length sx mod 4 \<noteq> 1"
    and "(length sx + p) mod 4 = 0" and "p \<le> 2" and "0 < p \<longrightarrow> sx \<noteq> []"
  shows "atob (map b64_char sx @ replicate p 0x3D) = Inr (map of_nat (b64_bytes sx))"
proof -
  define xs where "xs = map b64_char sx"
  have ok: "\<forall>c \<in> set xs. c \<noteq> 0x3D" "\<forall>c \<in> set xs. \<not> is_ascii_space c"
    "\<forall>c \<in> set xs. b64_index c \<noteq> None"
    using assms(1) b64_char_index by (auto simp: xs_def list_all_iff)
  have "\<not> is_ascii_space 0x3D" by (simp add: is_ascii_space_def)
  then have f: "filter (\<lambda>c. \<not> is_ascii_space c) (xs @ replicate p 0x3D) = xs @ replicate p 0x3D"
    using ok(2) by (simp add: filter_id_conv)
  have d: "strip_padding (xs @ replicate p 0x3D) = xs"
    using assms(3,4,5) ok(1) by (intro strip_padding_append) (simp_all add: xs_def)
  have idx: "map (\<lambda>c. the (b64_index c)) xs = sx"
    using assms(1) b64_char_index(1) by (auto simp: xs_def list_all_iff intro: map_idI)
  have l: "length xs mod 4 \<noteq> 1" using assms(2) by (simp add: xs_def)
  have v: "list_all (\<lambda>c. b64_index c \<noteq> None) xs" using ok(3) by (simp add: list_all_iff)
  show ?thesis
    unfolding xs_def [symmetric] atob_def f d Let_def idx using l v by simp
qed

lemma atob_btoa:
  fixes buf :: "byte list"
  shows "\<exists>t. btoa (map ucast buf) = Inr t \<and> atob t = Inr (map ucast buf)"
proof -
  define bs where "bs = map unat buf"
  define p where "p = (3 - length buf mod 3) mod 3"
  have small: "list_all (\<lambda>a. a < 256) bs"
    using unat_byte_small by (simp add: bs_def list_all_iff)
  have six: "list_all (\<lambda>n. n < 64) (b64_sextets bs)" using small by (rule sextets_bound)
  have len: "length bs = length buf" by (simp add: bs_def)
  have sl: "(length (b64_sextets bs) + p) mod 4 = 0" "length (b64_sextets bs) mod 4 \<noteq> 1"
    "0 < p \<longrightarrow> b64_sextets bs \<noteq> []"
    using sextets_length [of bs] unfolding len p_def by auto
  have "p < 3" unfolding p_def by simp
  then have p2: "p \<le> 2" by simp
  have restore: "map of_nat bs = (map ucast buf :: jsstring)"
    by (simp add: bs_def comp_def)
  have "atob (map b64_char (b64_sextets bs) @ replicate p 0x3D) = Inr (map ucast buf)"
    unfolding atob_sextets [OF six sl(2) sl(1) p2 sl(3)] bytes_sextets [OF small] restore ..
  then show ?thesis
    unfolding btoa_bytes bs_def p_def by simp
qed

lemma b64encode_ok:
  "length buf \<le> max_arguments pf \<Longrightarrow> \<exists>t. b64encode pf buf = Inr t \<and> b64decode t = Inr buf"
proof -
  assume l: "length buf \<le> max_arguments pf"
  obtain t where "btoa (map ucast buf) = Inr t" "atob t = Inr (map ucast buf)"
    using atob_btoa [of buf] by blast
  then show ?thesis
    using l by (simp add: b64encode_def b64decode_def map_ucast_byte_id del: map_map)
qed

lemma b64encode_too_long:
  "max_arguments pf < length buf \<Longrightarrow> b64encode pf buf = Inl RangeError"
  by (simp add: b64encode_def)

lemma b64encode_Inr:
  assumes "b64encode pf buf = Inr t"
  shows "b64decode t = Inr buf" and "length buf \<le> max_arguments pf"
proof -
  show l: "length buf \<le> max_arguments pf"
    using assms by (cases "max_arguments pf < length buf") (simp_all add: b64encode_def)
  from b64encode_ok [OF l] assms show "b64decode t = Inr buf" by auto
qed

lemma b64encode_cases:
  "(length buf \<le> max_arguments pf \<and> (\<exists>t. b64encode pf buf = Inr t)) \<or>
   (max_arguments pf < length buf \<and> b64encode pf buf = Inl RangeError)"
  using b64encode_ok [of buf pf] b64encode_too_long [of pf buf] by (cases "max_arguments pf < length buf") auto

lemma encrypt_with_Inr:
  assumes "encrypt_with pf s n x pw = Inr e"
  shows "b64decode (salt e) = Inr s" and "b64decode (iv e) = Inr n"
    and "b64decode (ciphertext e) =
           Inr (aes_gcm_encrypt pf (deriveKey pf pw s) n (TextEncoder_encode x))"
    and "length s \<le> max_arguments pf" and "length n \<le> max_arguments pf"
    and "length (aes_gcm_encrypt pf (deriveKey pf pw s) n (TextEncoder_encode x))
           \<le> max_arguments pf"
proof -
  define ct where "ct = aes_gcm_encrypt pf (deriveKey pf pw s) n (TextEncoder_encode x)"
  from assms obtain s64 i64 c64 where e: "e = \<lparr>salt = s64, iv = i64, ciphertext = c64\<rparr>"
    and s: "b64encode pf s = Inr s64" and i: "b64encode pf n = Inr i64"
    and c: "b64encode pf ct = Inr c64"
    by (auto simp: encrypt_with_def Let_def ct_def split: sum.splits)
  show "b64decode (salt e) = Inr s" "b64decode (iv e) = Inr n"
    using b64encode_Inr(1) [OF s] b64encode_Inr(1) [OF i] by (simp_all add: e)
  show "b64decode (ciphertext e) =
           Inr (aes_gcm_encrypt pf (deriveKey pf pw s) n (TextEncoder_encode x))"
    using b64encode_Inr(1) [OF c] by (simp add: e ct_def)
  show "length s \<le> max_arguments pf" "length n \<le> max_arguments pf"
    using b64encode_Inr(2) [OF s] b64encode_Inr(2) [OF i] by simp_all
  show "length (aes_gcm_encrypt pf (deriveKey pf pw s) n (TextEncoder_encode x))
           \<le> max_arguments pf"
    using b64encode_Inr(2) [OF c] by (simp add: ct_def)
qed

lemma encrypt_with_ok:
  assumes "length s \<le> max_arguments pf" and "length n \<le> max_arguments pf"
    and "length (aes_gcm_encrypt pf (deriveKey pf pw s) n (TextEncoder_encode x))
           \<le> max_arguments pf"
  shows "\<exists>e. encrypt_with pf s n x pw = Inr e"
proof -
  define ct where "ct = aes_gcm_encrypt pf (deriveKey pf pw s) n (TextEncoder_encode x)"
  obtain s64 where s: "b64encode pf s = Inr s64"
    using b64encode_ok [OF assms(1)] by blast
  obtain i64 where i: "b64encode pf n = Inr i64"
    using b64encode_ok [OF assms(2)] by blast
  obtain c64 where c: "b64encode pf ct = Inr c64"
    using b64encode_ok [of ct pf] assms(3) by (auto simp: ct_def)
  have "encrypt_with pf s n x pw = Inr \<lparr>salt = s64, iv = i64, ciphertext = c64\<rparr>"
    using s i c by (simp add: encrypt_with_def Let_def ct_def)
  then show ?thesis by blast
qed

lemma encrypt_with_too_long:
  assumes "\<not> (length s \<le> max_arguments pf \<and> length n \<le> max_arguments pf \<and>
    length (aes_gcm_encrypt pf (deriveKey pf pw s) n (TextEncoder_encode x)) \<le> max_arguments pf)"
  shows "encrypt_with pf s n x pw = Inl RangeError"
proof -
  define ct where "ct = aes_gcm_encrypt pf (deriveKey pf pw s) n (TextEncoder_encode x)"
  from assms have "max_arguments pf < length s \<or> max_arguments pf < length n \<or>
      max_arguments pf < length ct"
    by (auto simp: ct_def)
  then show ?thesis
    using b64encode_cases [of s pf] b64encode_cases [of n pf] b64encode_cases [of ct pf]
    by (auto simp: encrypt_with_def Let_def ct_def [symmetric])
qed

lemma decrypt_encrypt_with:
  assumes "encrypt_with pf s n x pw0 = Inr e"
  shows "decrypt pf e pw =
     (case aes_gcm_decrypt pf (deriveKey pf pw s) n
             (aes_gcm_encrypt pf (deriveKey pf pw0 s) n (TextEncoder_encode x)) of
        None \<Rightarrow> Inl OperationError
      | Some plainBuf \<Rightarrow> Inr (TextDecoder_decode plainBuf))"
  using encrypt_with_Inr(1-3) [OF assms]
  by (simp add: decrypt_def)

lemma encrypt_frame:
  "snd (encrypt pf x pw w) = w\<lparr>entropy := (\<lambda>i. entropy w (i + (SALT_BYTES + IV_BYTES)))\<rparr>"
  by (simp add: encrypt_def getRandomValues_def add.assoc add.commute add.left_commute)

lemma encrypt_fst:
  "fst (encrypt pf x pw w) =
     encrypt_with pf (map (entropy w) [0..<SALT_BYTES])
       (map (\<lambda>i. entropy w (i + SALT_BYTES)) [0..<IV_BYTES]) x pw"
  by (simp add: encrypt_def getRandomValues_def)

lemma encrypt_fits_Inr:
  assumes "encrypt_fits pf x pw w"
  shows "\<exists>e. fst (encrypt pf x pw w) = Inr e"
  unfolding encrypt_fst
  using assms by (intro encrypt_with_ok) (simp_all add: encrypt_fits_def ciphertext_of_def)

lemma encrypt_not_fits:
  assumes "\<not> encrypt_fits pf x pw w"
  shows "fst (encrypt pf x pw w) = Inl RangeError"
  unfolding encrypt_fst
  using assms by (intro encrypt_with_too_long) (simp add: encrypt_fits_def ciphertext_of_def)


lemma encrypt_Inr_fits:
  assumes "fst (encrypt pf x pw w) = Inr e"
  shows "encrypt_fits pf x pw w"
  using assms encrypt_not_fits [of pf x pw w] by auto

section \<open>app.js: persistVault\<close>

lemma persistVault_frame:
  "\<exists>b ls n en. snd (persistVault pf w) =
     w\<lparr>state := (state w)\<lparr>pendingSync := b\<rparr>, localStorage := ls, network := n, entropy := en\<rparr> \<and>
     mv_gh_cfg ls = mv_gh_cfg (localStorage w)"
proof -
  have triv: "w = w\<lparr>state := (state w)\<lparr>pendingSync := pendingSync (state w)\<rparr>,
      localStorage := localStorage w, network := network w, entropy := entropy w\<rparr>"
    by simp
  have same: ?thesis if "snd (persistVault pf w) = w"
    using that triv by metis
  show ?thesis
  proof (cases "vault (state w)")
    case None
    then show ?thesis by (intro same) (simp add: persistVault_def)
  next
    case (Some v)
    note v = this
    show ?thesis
    proof (cases "password (state w)")
      case None
      then show ?thesis using v by (intro same) (simp add: persistVault_def)
    next
      case (Some pw)
      show ?thesis
      proof (cases "pw = []")
        case True
        then show ?thesis using v Some by (intro same) (simp add: persistVault_def)
      next
        case False
        obtain r w1 where e: "encrypt pf (JSON_stringify pf v) pw w = (r, w1)"
          by (cases "encrypt pf (JSON_stringify pf v) pw w")
        have w1: "w1 = w\<lparr>entropy := (\<lambda>i. entropy w (i + (SALT_BYTES + IV_BYTES)))\<rparr>"
          using encrypt_frame [of pf "JSON_stringify pf v" pw w] e by simp
        show ?thesis
        proof (cases r)
          case (Inl err)
          then have "snd (persistVault pf w) =
            w\<lparr>state := (state w)\<lparr>pendingSync := pendingSync (state w)\<rparr>,
              localStorage := localStorage w, network := network w,
              entropy := (\<lambda>i. entropy w (i + (SALT_BYTES + IV_BYTES)))\<rparr>"
            using v Some False e w1 by (simp add: persistVault_def)
          then show ?thesis by blast
        next
          case (Inr enc)
          obtain n b where n: "snd (save pf enc w1) =
            w1\<lparr>localStorage := (localStorage w1)\<lparr>mv_vault := Some enc, mv_pending := b\<rparr>,
               network := n\<rparr>"
            using save_frame [of pf enc w1] by blast
          obtain r2 w2 where sv: "save pf enc w1 = (r2, w2)" by (cases "save pf enc w1")
          have r2: "r2 = Inr ()" using save_result [of pf enc w1] sv by simp
          have "snd (persistVault pf w) =
            w\<lparr>state := (state w)\<lparr>pendingSync := hasPending w2\<rparr>,
              localStorage := (localStorage w)\<lparr>mv_vault := Some enc, mv_pending := b\<rparr>,
              network := n,
              entropy := (\<lambda>i. entropy w (i + (SALT_BYTES + IV_BYTES)))\<rparr>"
            using v Some False e Inr sv r2 n w1 by (simp add: persistVault_def)
          then show ?thesis by force
        qed
      qed
    qed
  qed
qed

lemma persistVault_state:
  "\<exists>b. state (snd (persistVault pf w)) = (state w)\<lparr>pendingSync := b\<rparr>"
  using persistVault_frame [of pf w] by auto

lemma persistVault_timer: "lockTimer (snd (persistVault pf w)) = lockTimer w"
  using persistVault_frame [of pf w] by auto





section \<open>The reference platform meets the contracts\<close>

lemma ref_aead_correct: "aead_correct ref_platform"
  by (simp add: aead_correct_def ref_platform_def ref_encrypt_def ref_decrypt_def comp_def)


lemmas codec_defs = TextEncoder_encode_def TextDecoder_decode_def is_high_def is_low_def
  utf8_encode_def strip_bom_def from_scalar_def pair_value_def

lemmas crypto_defs = verify_def decrypt_def encrypt_def encrypt_with_def b64decode_def
  b64encode_def deriveKey_def getRandomValues_def SALT_BYTES_def IV_BYTES_def ref_pbkdf2_def
  ref_encrypt_def ref_decrypt_def PBKDF2_ITERATIONS_def btoa_def atob_def b64_char_def
  b64_index_def is_ascii_space_def strip_padding_def replicate_two replicate_one
  encrypt_fits_def ciphertext_of_def persist_fits_def

lemmas app_defs = unlock_def load_def save_def persistVault_def syncFromGitHub_def
  syncToGitHub_def resetLockTimer_def lock_def emptyVault_def world_locked_def
  world_first_def pw1_def

lemmas eval_defs = run_defs codec_defs crypto_defs app_defs upt_rec sha_of_def

section \<open>app.js: unlock\<close>

text \<open>
  C6. When \<open>load\<close> returns an envelope and the password does not verify against it,
  \<open>unlock\<close> returns \<open>{ok: false}\<close> and the \<open>state\<close> object and the lock timer are exactly
  what they were: a locked session stays locked, its vault \<open>null\<close> and its password unset.
\<close>

theorem unlock_wrong_password_stays_locked:
  "fst (load pf w) = Inr (Some p) \<Longrightarrow> \<not> verify pf p pw \<Longrightarrow>
     fst (unlock pf pw w) = Inr \<lparr>ok = False, firstRun = None\<rparr> \<and>
     state (snd (unlock pf pw w)) = state w \<and>
     lockTimer (snd (unlock pf pw w)) = lockTimer w"
proof -
  assume l: "fst (load pf w) = Inr (Some p)" and v: "\<not> verify pf p pw"
  obtain w1 where w1: "load pf w = (Inr (Some p), w1)" using l by (cases "load pf w") simp
  have u: "unlock pf pw w = (Inr \<lparr>ok = False, firstRun = None\<rparr>, w1)"
    using v by (simp add: unlock_def w1)
  show ?thesis using load_frame [of pf w] by (simp add: u w1)
qed

theorem unlock_wrong_password_stays_locked_witness:
  "fst (load ref_platform world_locked) = Inr (loadLocal world_locked) \<and>
   loadLocal world_locked \<noteq> None \<and>
   \<not> verify ref_platform (the (loadLocal world_locked)) (js ''wrongpass'') \<and>
   fst (unlock ref_platform (js ''wrongpass'') world_locked) = Inr \<lparr>ok = False, firstRun = None\<rparr> \<and>
   locked (state (snd (unlock ref_platform (js ''wrongpass'') world_locked))) \<and>
   vault (state (snd (unlock ref_platform (js ''wrongpass'') world_locked))) = None \<and>
   password (state (snd (unlock ref_platform (js ''wrongpass'') world_locked))) = None \<and>
   \<not> lockTimer (snd (unlock ref_platform (js ''wrongpass'') world_locked))"
proof -
  let ?e = "\<lparr>salt = js ''AAECAwQFBgcICQoLDA0ODw=='', iv = js ''EBESExQVFhcYGRob'',
             ciphertext = js ''52Jk''\<rparr>"
  have e: "loadLocal world_locked = Some ?e"
    by (simp add: eval_defs)
  have l: "fst (load ref_platform world_locked) = Inr (Some ?e)"
    by (simp add: eval_defs)
  have v: "\<not> verify ref_platform ?e (js ''wrongpass'')"
    by (simp add: eval_defs)
  have s: "locked (state world_locked) \<and> vault (state world_locked) = None \<and>
           password (state world_locked) = None \<and> \<not> lockTimer world_locked"
    by (simp add: world_locked_def lock_def)
  show ?thesis
    using unlock_wrong_password_stays_locked [OF l v] e l v s by simp
qed






section \<open>app.js: the row invariant\<close>

lemma persist_then_state:
  "\<exists>b. state (snd (persist_then pf r w)) = (state w)\<lparr>pendingSync := b\<rparr>"
  using persistVault_state [of pf w]
  by (auto simp: persist_then_def split: prod.splits sum.splits)

lemma persist_then_vault: "vault (state (snd (persist_then pf r w))) = vault (state w)"
  using persist_then_state [of pf r w] by auto


lemma lookup_Table: "(lookup v n = Some (Table t)) = (tables v n = Some (Table t))"
  by (simp add: lookup_def split: option.splits)

lemma world_inv_persist:
  "world_inv (snd (persist_then pf r (set_vault v w))) = rows_inv v"
  by (simp add: world_inv_def persist_then_vault set_vault_def)

lemma rows_inv_set_table: "rows_inv v \<Longrightarrow> table_ok t \<Longrightarrow> rows_inv (set_table n t v)"
  by (simp add: rows_inv_def set_table_def)

lemma rows_inv_table: "rows_inv v \<Longrightarrow> lookup v n = Some (Table t) \<Longrightarrow> table_ok t"
  by (auto simp: rows_inv_def lookup_Table)

lemma length_splice1: "length xs = length ys \<Longrightarrow> length (splice1 i xs) = length (splice1 i ys)"
  by (simp add: splice1_def Let_def)

lemma set_splice1: "set (splice1 i xs) \<subseteq> set xs"
  by (auto simp: splice1_def Let_def dest: in_set_takeD in_set_dropD)

lemma length_assign:
  "j < int (length row) \<or> 4294967295 \<le> j \<Longrightarrow> length (assign row j x) = length row"
  by (auto simp: assign_def)

lemma table_ok_addColumn:
  "table_ok tbl \<Longrightarrow>
   table_ok (tbl\<lparr>columns := columns tbl @ [c], rows := map (\<lambda>row. row @ [Some []]) (rows tbl)\<rparr>)"
  by (simp add: table_ok_def list_all_iff)

lemma table_ok_renameColumn:
  "table_ok tbl \<Longrightarrow> table_ok (tbl\<lparr>columns := (columns tbl)[i := c]\<rparr>)"
  by (simp add: table_ok_def)

lemma table_ok_deleteColumn:
  "table_ok tbl \<Longrightarrow>
   table_ok (tbl\<lparr>columns := splice1 i (columns tbl), rows := map (splice1 i) (rows tbl)\<rparr>)"
  by (auto simp: table_ok_def list_all_iff intro: length_splice1)

lemma table_ok_addRow:
  "table_ok tbl \<Longrightarrow>
   table_ok (tbl\<lparr>rows := rows tbl @ [replicate (length (columns tbl)) (Some [])]\<rparr>)"
  by (simp add: table_ok_def)

lemma table_ok_deleteRow: "table_ok tbl \<Longrightarrow> table_ok (tbl\<lparr>rows := splice1 i (rows tbl)\<rparr>)"
  using set_splice1 [of i "rows tbl"] by (auto simp: table_ok_def list_all_iff)

lemma table_ok_updateCell:
  assumes "table_ok tbl" and "element (rows tbl) i = Some row"
    and "j < int (length (columns tbl)) \<or> 4294967295 \<le> j"
  shows "table_ok (tbl\<lparr>rows := (rows tbl)[nat i := assign row j x]\<rparr>)"
proof -
  from assms(2) have r: "row \<in> set (rows tbl)"
    by (auto simp: element_def split: if_splits)
  with assms(1) have "length row = length (columns tbl)"
    by (simp add: table_ok_def list_all_iff)
  with assms(3) have "length (assign row j x) = length (columns tbl)"
    by (simp add: length_assign)
  with assms(1) show ?thesis
    by (auto simp: table_ok_def list_all_iff dest!: set_update_subset_insert [THEN subsetD])
qed

lemma table_ok_import:
  "table_ok tbl \<Longrightarrow> list_all (\<lambda>l. length (parseRow l) = length (columns tbl)) body \<Longrightarrow>
   table_ok (tbl\<lparr>rows := rows tbl @ map (\<lambda>l. map Some (parseRow l)) body\<rparr>)"
  by (auto simp: table_ok_def list_all_iff)

lemma table_ok_new:
  "list_all (\<lambda>l. length (parseRow l) = length cols) body \<Longrightarrow>
   table_ok \<lparr>columns = cols, rows = map (\<lambda>l. map Some (parseRow l)) body\<rparr>"
  by (auto simp: table_ok_def list_all_iff)

lemma rows_inv_remove: "rows_inv v \<Longrightarrow> rows_inv (v\<lparr>tables := (tables v)(n := None)\<rparr>)"
  by (simp add: rows_inv_def)

lemma rows_inv_move:
  "rows_inv v \<Longrightarrow> rows_inv (v\<lparr>tables := ((tables v)(m := lookup v n))(n := None)\<rparr>)"
  by (auto simp: rows_inv_def lookup_Table)

lemma world_inv_state:
  "vault (state w') = vault (state w) \<Longrightarrow> world_inv w' = world_inv w"
  by (simp add: world_inv_def)

lemma vault_set_vault: "vault (state (snd (persist_then pf r (set_vault v w)))) = Some v"
  by (simp add: persist_then_vault set_vault_def)

lemma createTable_vault:
  "vault (state w) = Some v \<Longrightarrow>
   vault (state (snd (createTable pf n0 w))) =
     Some (if trim n0 = [] \<or> lookup v (trim n0) \<noteq> None then v
           else set_table (trim n0) \<lparr>columns = [js ''Column 1''], rows = []\<rparr> v)"
  by (simp add: createTable_def Let_def vault_set_vault)

lemma renameTable_vault:
  "vault (state w) = Some v \<Longrightarrow>
   vault (state (snd (renameTable pf n m0 w))) =
     Some (if trim m0 = [] \<or> trim m0 = n \<or> lookup v (trim m0) \<noteq> None then v
           else v\<lparr>tables := ((tables v)(trim m0 := lookup v n))(n := None)\<rparr>)"
  by (simp add: renameTable_def Let_def persist_then_vault set_vault_def)

lemma deleteTable_vault:
  "vault (state w) = Some v \<Longrightarrow>
   vault (state (snd (deleteTable pf n w))) =
     Some (if lookup v n = None then v else v\<lparr>tables := (tables v)(n := None)\<rparr>)"
  by (simp add: deleteTable_def Let_def persist_then_vault set_vault_def)

lemma addColumn_vault:
  "vault (state w) = Some v \<Longrightarrow> lookup v n = Some (Table tbl) \<Longrightarrow>
   vault (state (snd (addColumn pf n c0 w))) =
     Some (set_table n
        (tbl\<lparr>columns := columns tbl @
               [if trim c0 \<noteq> [] then trim c0 else js ''Column '' @ decimal (length (columns tbl) + 1)],
             rows := map (\<lambda>row. row @ [Some []]) (rows tbl)\<rparr>) v)"
  by (simp add: addColumn_def Let_def vault_set_vault)

lemma renameColumn_vault:
  "vault (state w) = Some v \<Longrightarrow> lookup v n = Some (Table tbl) \<Longrightarrow>
   vault (state (snd (renameColumn pf n i c0 w))) =
     Some (if i < 0 \<or> int (length (columns tbl)) \<le> i then v
           else set_table n
             (tbl\<lparr>columns := (columns tbl)
                [nat i := (if trim c0 \<noteq> [] then trim c0 else columns tbl ! nat i)]\<rparr>) v)"
  by (simp add: renameColumn_def Let_def vault_set_vault)

lemma deleteColumn_vault:
  "vault (state w) = Some v \<Longrightarrow> lookup v n = Some (Table tbl) \<Longrightarrow>
   vault (state (snd (deleteColumn pf n i w))) =
     Some (if length (columns tbl) \<le> 1 then v
           else set_table n
             (tbl\<lparr>columns := splice1 i (columns tbl), rows := map (splice1 i) (rows tbl)\<rparr>) v)"
  by (simp add: deleteColumn_def Let_def vault_set_vault)

lemma addRow_vault:
  "vault (state w) = Some v \<Longrightarrow> lookup v n = Some (Table tbl) \<Longrightarrow>
   vault (state (snd (addRow pf n w))) =
     Some (set_table n (tbl\<lparr>rows := rows tbl @ [replicate (length (columns tbl)) (Some [])]\<rparr>) v)"
  by (simp add: addRow_def Let_def vault_set_vault)

lemma updateCell_vault:
  "vault (state w) = Some v \<Longrightarrow> lookup v n = Some (Table tbl) \<Longrightarrow>
   vault (state (snd (updateCell pf n i j x w))) =
     Some (case element (rows tbl) i of
             None \<Rightarrow> v
           | Some row \<Rightarrow> set_table n (tbl\<lparr>rows := (rows tbl)[nat i := assign row j x]\<rparr>) v)"
  by (simp add: updateCell_def Let_def vault_set_vault split: option.splits)

lemma deleteRow_vault:
  "vault (state w) = Some v \<Longrightarrow> lookup v n = Some (Table tbl) \<Longrightarrow>
   vault (state (snd (deleteRow pf n i w))) =
     Some (set_table n (tbl\<lparr>rows := splice1 i (rows tbl)\<rparr>) v)"
  by (simp add: deleteRow_def Let_def vault_set_vault)

lemma missing_table_vault:
  assumes "vault (state w) = Some v" and "lookup v n = None"
  shows "addColumn pf n c0 w = (Inr (), w)" and "renameColumn pf n i c0 w = (Inr (), w)"
    and "deleteColumn pf n i w = (Inr (), w)" and "addRow pf n w = (Inr (), w)"
    and "updateCell pf n i j x w = (Inr (), w)" and "deleteRow pf n i w = (Inr (), w)"
  using assms
  by (simp_all add: addColumn_def renameColumn_def deleteColumn_def addRow_def updateCell_def
      deleteRow_def)

lemma foreign_table_vault:
  assumes "vault (state w) = Some v" and "lookup v n = Some Foreign"
  shows "addColumn pf n c0 w = (Inl TypeError, w)"
    and "renameColumn pf n i c0 w = (if i < 0 then Inr () else Inl TypeError, w)"
    and "deleteColumn pf n i w = (Inl TypeError, w)" and "addRow pf n w = (Inl TypeError, w)"
    and "updateCell pf n i j x w = (Inl TypeError, w)"
    and "deleteRow pf n i w = (Inl TypeError, w)"
  using assms
  by (simp_all add: addColumn_def renameColumn_def deleteColumn_def addRow_def updateCell_def
      deleteRow_def)

lemma importCSV_vault:
  "vault (state w) = Some v \<Longrightarrow>
   vault (state (snd (importCSV pf n0 t w))) =
     Some (case csv_lines t of
             [] \<Rightarrow> v
           | header # body \<Rightarrow>
               (let name = (if trim n0 \<noteq> [] then trim n0 else js ''Imported Table'');
                    rws = map (\<lambda>l. map Some (parseRow l)) body
                in case lookup v name of
                     Some (Table tbl) \<Rightarrow>
                       if max_arguments pf < length rws then v
                       else set_table name (tbl\<lparr>rows := rows tbl @ rws\<rparr>) v
                   | Some Foreign \<Rightarrow> v
                   | None \<Rightarrow> set_table name \<lparr>columns = parseRow header, rows = rws\<rparr> v))"
  by (simp add: importCSV_def Let_def vault_set_vault
      split: list.splits option.splits entry.splits)

text \<open>
  A name that \<open>Object.prototype\<close> defines is never a new table: \<open>createTable\<close> returns
  false, and the column and row operations throw (\<open>foreign_table_vault\<close>) unless the vault
  holds a table of that name as an own property.
\<close>

lemma createTable_inherited:
  "vault (state w) = Some v \<Longrightarrow> trim n \<in> set inherited \<Longrightarrow>
   createTable pf n w = (Inr False, w)"
  by (auto simp: createTable_def Let_def lookup_def inherited_def split: option.splits)

lemma importCSV_inherited:
  "vault (state w) = Some v \<Longrightarrow> tables v n = None \<Longrightarrow> n \<in> set inherited \<Longrightarrow> trim n = n \<Longrightarrow>
   csv_lines t \<noteq> [] \<Longrightarrow> importCSV pf n t w = (Inl TypeError, w)"
proof -
  assume a: "vault (state w) = Some v" "tables v n = None" "n \<in> set inherited" "trim n = n"
    "csv_lines t \<noteq> []"
  have "[] \<notin> set inherited" by (simp add: inherited_def js_def)
  with a(3) have "n \<noteq> []" by auto
  with a show ?thesis
    by (cases "csv_lines t") (simp_all add: importCSV_def Let_def lookup_def)
qed

lemma locked_vault:
  assumes "vault (state w) = None"
  shows "vault (state (apply_op pf x w)) = None"
  using assms
  by (cases x)
     (simp_all add: createTable_def renameTable_def deleteTable_def addColumn_def
        renameColumn_def deleteColumn_def addRow_def updateCell_def deleteRow_def importCSV_def
        Let_def split: list.splits)

lemma lookup_cases:
  obtains "lookup v n = None" | "lookup v n = Some Foreign"
  | tbl where "lookup v n = Some (Table tbl)"
proof (cases "lookup v n")
  case None
  then show ?thesis using that by simp
next
  case (Some e)
  then show ?thesis using that by (cases e) simp_all
qed

lemma apply_op_inv:
  assumes "world_inv w" and "op_safe x w"
  shows "world_inv (apply_op pf x w)"
proof (cases "vault (state w)")
  case None
  then show ?thesis using locked_vault [of w pf x] by (simp add: world_inv_def)
next
  case (Some v)
  note v = this
  with assms(1) have inv: "rows_inv v" by (simp add: world_inv_def)
  note tok = rows_inv_table [OF inv]
  note st = rows_inv_set_table [OF inv]
  have same: "world_inv w'" if "vault (state w') = Some v" for w' :: "'a world"
    using that inv by (simp add: world_inv_def)
  have upd: "world_inv w'" if "vault (state w') = Some (set_table n t v)" "table_ok t"
    for w' :: "'a world" and n t
    using that st by (simp add: world_inv_def)
  show ?thesis
  proof (cases x)
    case (CreateTable n)
    have "table_ok \<lparr>columns = [js ''Column 1''], rows = []\<rparr>" by (simp add: table_ok_def)
    then show ?thesis
      using createTable_vault [OF v, of pf n] inv st
      by (simp add: CreateTable world_inv_def)
  next
    case (RenameTable n m)
    then show ?thesis
      using renameTable_vault [OF v, of pf n m] inv rows_inv_move [OF inv]
      by (simp add: world_inv_def)
  next
    case (DeleteTable n)
    then show ?thesis
      using deleteTable_vault [OF v, of pf n] inv rows_inv_remove [OF inv]
      by (simp add: world_inv_def)
  next
    case (AddColumn n c)
    show ?thesis
    proof (cases rule: lookup_cases [of v n])
      case 1
      then show ?thesis
        using missing_table_vault(1) [OF v 1, where pf = pf] assms(1) by (simp add: AddColumn)
    next
      case 2
      then show ?thesis
        using foreign_table_vault(1) [OF v 2, where pf = pf] assms(1) by (simp add: AddColumn)
    next
      case (3 tbl)
      show ?thesis
        unfolding AddColumn apply_op.simps
        by (rule upd [OF addColumn_vault [OF v 3]]) (rule table_ok_addColumn [OF tok [OF 3]])
    qed
  next
    case (RenameColumn n i c)
    show ?thesis
    proof (cases rule: lookup_cases [of v n])
      case 1
      then show ?thesis
        using missing_table_vault(2) [OF v 1, where pf = pf] assms(1)
        by (simp add: RenameColumn)
    next
      case 2
      then show ?thesis
        using foreign_table_vault(2) [OF v 2, where pf = pf] assms(1)
        by (simp add: RenameColumn)
    next
      case (3 tbl)
      then show ?thesis
        using renameColumn_vault [OF v 3, of pf i c] inv
          st [OF table_ok_renameColumn [OF tok [OF 3]]]
        by (simp add: RenameColumn world_inv_def)
    qed
  next
    case (DeleteColumn n i)
    show ?thesis
    proof (cases rule: lookup_cases [of v n])
      case 1
      then show ?thesis
        using missing_table_vault(3) [OF v 1, where pf = pf] assms(1)
        by (simp add: DeleteColumn)
    next
      case 2
      then show ?thesis
        using foreign_table_vault(3) [OF v 2, where pf = pf] assms(1)
        by (simp add: DeleteColumn)
    next
      case (3 tbl)
      then show ?thesis
        using deleteColumn_vault [OF v 3, of pf i] inv
          st [OF table_ok_deleteColumn [OF tok [OF 3]]]
        by (simp add: DeleteColumn world_inv_def)
    qed
  next
    case (AddRow n)
    show ?thesis
    proof (cases rule: lookup_cases [of v n])
      case 1
      then show ?thesis
        using missing_table_vault(4) [OF v 1, where pf = pf] assms(1) by (simp add: AddRow)
    next
      case 2
      then show ?thesis
        using foreign_table_vault(4) [OF v 2, where pf = pf] assms(1) by (simp add: AddRow)
    next
      case (3 tbl)
      show ?thesis
        unfolding AddRow apply_op.simps
        by (rule upd [OF addRow_vault [OF v 3]]) (rule table_ok_addRow [OF tok [OF 3]])
    qed
  next
    case (UpdateCell n i j y)
    show ?thesis
    proof (cases rule: lookup_cases [of v n])
      case 1
      then show ?thesis
        using missing_table_vault(5) [OF v 1, where pf = pf] assms(1)
        by (simp add: UpdateCell)
    next
      case 2
      then show ?thesis
        using foreign_table_vault(5) [OF v 2, where pf = pf] assms(1)
        by (simp add: UpdateCell)
    next
      case (3 tbl)
      from assms(2) have safe: "j < int (length (columns tbl)) \<or> 4294967295 \<le> j"
        using 3 v by (simp add: UpdateCell getTable_def)
      show ?thesis
      proof (cases "element (rows tbl) i")
        case None
        then show ?thesis
          using updateCell_vault [OF v 3, of pf i j y] inv
          by (simp add: UpdateCell world_inv_def)
      next
        case (Some row)
        then show ?thesis
          using updateCell_vault [OF v 3, of pf i j y]
            st [OF table_ok_updateCell [OF tok [OF 3] Some safe]]
          by (simp add: UpdateCell world_inv_def)
      qed
    qed
  next
    case (DeleteRow n i)
    show ?thesis
    proof (cases rule: lookup_cases [of v n])
      case 1
      then show ?thesis
        using missing_table_vault(6) [OF v 1, where pf = pf] assms(1)
        by (simp add: DeleteRow)
    next
      case 2
      then show ?thesis
        using foreign_table_vault(6) [OF v 2, where pf = pf] assms(1)
        by (simp add: DeleteRow)
    next
      case (3 tbl)
      show ?thesis
        unfolding DeleteRow apply_op.simps
        by (rule upd [OF deleteRow_vault [OF v 3]]) (rule table_ok_deleteRow [OF tok [OF 3]])
    qed
  next
    case (ImportCSV n0 t)
    show ?thesis
    proof (cases "csv_lines t")
      case Nil
      then show ?thesis
        using importCSV_vault [OF v, of pf n0 t] inv by (simp add: ImportCSV world_inv_def)
    next
      case (Cons header body)
      define name where "name = (if trim n0 \<noteq> [] then trim n0 else js ''Imported Table'')"
      show ?thesis
      proof (cases rule: lookup_cases [of v name])
        case 1
        with assms(2) have "list_all (\<lambda>l. length (parseRow l) = length (parseRow header)) body"
          using v Cons by (simp add: ImportCSV getTable_def name_def Let_def)
        from st [OF table_ok_new [OF this], of name] show ?thesis
          using importCSV_vault [OF v, of pf n0 t] Cons 1
          by (simp add: ImportCSV world_inv_def name_def Let_def)
      next
        case 2
        then show ?thesis
          using importCSV_vault [OF v, of pf n0 t] Cons inv
          by (simp add: ImportCSV world_inv_def name_def Let_def)
      next
        case (3 tbl)
        with assms(2) have "list_all (\<lambda>l. length (parseRow l) = length (columns tbl)) body"
          using v Cons by (simp add: ImportCSV getTable_def name_def Let_def)
        from st [OF table_ok_import [OF tok [OF 3] this], of name] show ?thesis
          using importCSV_vault [OF v, of pf n0 t] Cons 3 inv
          by (simp add: ImportCSV world_inv_def name_def Let_def)
      qed
    qed
  qed
qed

lemma run_ops_inv:
  "world_inv w \<Longrightarrow> safe_run pf ops w \<Longrightarrow> world_inv (run_ops pf ops w)"
  by (induction ops arbitrary: w) (auto intro: apply_op_inv)

lemmas table_defs = createTable_def renameTable_def deleteTable_def addColumn_def
  renameColumn_def deleteColumn_def addRow_def updateCell_def deleteRow_def importCSV_def
  persist_then_def set_vault_def set_table_def getTable_def lookup_def inherited_def trim_def
  is_space_def element_def
  assign_def splice1_def csv_lines_def parseRow_def world_table_def csv_ragged_def ops_demo_def

lemma structural_ops_safe:
  "list_all (\<lambda>x. case x of UpdateCell n i j y \<Rightarrow> False | ImportCSV n t \<Rightarrow> False | _ \<Rightarrow> True) ops
     \<Longrightarrow> safe_run pf ops w"
proof (induction ops arbitrary: w)
  case Nil
  then show ?case by simp
next
  case (Cons a as)
  then show ?case by (cases a) simp_all
qed

text \<open>
  C3, as the code has it. Starting from a vault in which every row is as long as its
  table's column list, a run of vault-mutating operations keeps that true for every table
  provided each \<open>updateCell\<close> in it has a column index below the number of columns (or one
  that is no array index), and each \<open>importCSV\<close> brings data lines with as many fields as
  the table they go to has columns. Creating, renaming and deleting tables, adding,
  renaming and deleting columns, and adding and deleting rows need no proviso
  (\<open>structural_ops_safe\<close>).
\<close>

theorem row_invariant_kept_by_safe_runs:
  "world_inv w \<Longrightarrow> safe_run pf ops w \<Longrightarrow>
     (\<forall>n tbl. getTable (run_ops pf ops w) n = Some (Table tbl) \<longrightarrow>
        (\<forall>row \<in> set (rows tbl). length row = length (columns tbl)))"
proof -
  assume "world_inv w" and "safe_run pf ops w"
  then have "world_inv (run_ops pf ops w)" by (rule run_ops_inv)
  then show ?thesis
    by (auto simp: world_inv_def rows_inv_def table_ok_def list_all_iff getTable_def
        lookup_Table split: option.splits)
qed

theorem row_invariant_kept_by_safe_runs_witness:
  "world_inv world_first \<and> safe_run ref_platform ops_demo world_first \<and>
   getTable (run_ops ref_platform ops_demo world_first) (js ''t'') =
     Some (Table \<lparr>columns = [js ''Column 2''],
                  rows = [[Some (js ''alice'')], [Some (js ''bob'')]]\<rparr>) \<and>
   table_ok \<lparr>columns = [js ''Column 2''],
             rows = [[Some (js ''alice'')], [Some (js ''bob'')]]\<rparr>"
proof -
  have 1: "world_inv world_first"
    by (simp add: world_inv_def rows_inv_def eval_defs)
  have 2: "safe_run ref_platform ops_demo world_first"
    by (simp add: eval_defs table_defs)
  have 3: "getTable (run_ops ref_platform ops_demo world_first) (js ''t'') =
     Some (Table \<lparr>columns = [js ''Column 2''],
                  rows = [[Some (js ''alice'')], [Some (js ''bob'')]]\<rparr>)"
    by (simp add: eval_defs table_defs)
  show ?thesis
    using row_invariant_kept_by_safe_runs [OF 1 2] 1 2 3
    by (auto simp: table_ok_def list_all_iff)
qed

text \<open>
  The claim as stated fails: importing a CSV text whose data line has one field under a
  header of two leaves a table with two columns and a row of length one.
\<close>

theorem row_invariant_counterexample:
  "world_inv world_first \<and>
   getTable (run_ops ref_platform [ImportCSV (js ''t'') csv_ragged] world_first) (js ''t'') =
     Some (Table \<lparr>columns = [js ''a'', js ''b''], rows = [[Some (js ''1'')]]\<rparr>) \<and>
   \<not> world_inv (run_ops ref_platform [ImportCSV (js ''t'') csv_ragged] world_first)"
proof -
  have 1: "world_inv world_first"
    by (simp add: world_inv_def rows_inv_def eval_defs)
  have 2: "getTable (run_ops ref_platform [ImportCSV (js ''t'') csv_ragged] world_first) (js ''t'') =
     Some (Table \<lparr>columns = [js ''a'', js ''b''], rows = [[Some (js ''1'')]]\<rparr>)"
    by (simp add: eval_defs table_defs)
  have "\<not> table_ok \<lparr>columns = [js ''a'', js ''b''], rows = [[Some (js ''1'')]]\<rparr>"
    by (simp add: table_ok_def)
  with 2 have 3: "\<not> world_inv (run_ops ref_platform [ImportCSV (js ''t'') csv_ragged] world_first)"
    by (auto simp: world_inv_def rows_inv_def getTable_def lookup_Table split: option.splits)
  from 1 2 3 show ?thesis by simp
qed

section \<open>app.js: updateCell\<close>

lemma element_iff:
  "element xs i = (if 0 \<le> i \<and> i < int (length xs) then Some (xs ! nat i) else None)"
  by (simp add: element_def)






section \<open>TextDecoder undoes TextEncoder on well-formed strings\<close>

lemma unat_byte: "n < 256 \<Longrightarrow> unat (of_nat n :: byte) = n"
  by (simp add: unat_of_nat)

lemma div_lt: "cp < k * n \<Longrightarrow> cp div n < k" for cp :: nat
  by (rule less_mult_imp_div_less)

lemma div_ge: "0 < n \<Longrightarrow> k * n \<le> cp \<Longrightarrow> k \<le> cp div n" for cp :: nat
  by (simp add: less_eq_div_iff_mult_less_eq)

lemma mod_range: "k * m \<le> x \<Longrightarrow> x < k * m + m \<Longrightarrow> x mod m = x - k * m" for x :: nat
proof -
  assume a: "k * m \<le> x" and b: "x < k * m + m"
  define d where "d = x - k * m"
  have x: "x = k * m + d" and d: "d < m" using a b by (simp_all add: d_def)
  show ?thesis unfolding x using d by simp
qed

lemma mod_shift: "q < m \<Longrightarrow> (k * m + q) mod m = q" for q :: nat
  by simp

lemma decode_one_byte:
  assumes "b1 \<le> 0x7F"
  shows "utf8_decode a 0 lo hi (of_nat b1 # bs) = b1 # utf8_decode 0 0 0x80 0xBF bs"
proof -
  have "unat (of_nat b1 :: byte) = b1" using assms by (simp add: unat_byte)
  then show ?thesis using assms by (simp add: Let_def)
qed

lemma decode_two_bytes:
  assumes "0xC2 \<le> b1" "b1 \<le> 0xDF" "0x80 \<le> b2" "b2 \<le> 0xBF"
  shows "utf8_decode a 0 lo hi (of_nat b1 # of_nat b2 # bs) =
         (b1 mod 0x20 * 0x40 + b2 mod 0x40) # utf8_decode 0 0 0x80 0xBF bs"
proof -
  have u1: "unat (of_nat b1 :: byte) = b1" using assms by (simp add: unat_byte)
  have u2: "unat (of_nat b2 :: byte) = b2" using assms by (simp add: unat_byte)
  show ?thesis using assms by (simp add: u1 u2 Let_def)
qed

lemma decode_three_bytes:
  assumes "0xE0 \<le> b1" "b1 \<le> 0xEF"
    and "(if b1 = 0xE0 then 0xA0 else 0x80) \<le> b2" "b2 \<le> (if b1 = 0xED then 0x9F else 0xBF)"
    and "0x80 \<le> b3" "b3 \<le> 0xBF"
  shows "utf8_decode a 0 lo hi (of_nat b1 # of_nat b2 # of_nat b3 # bs) =
         ((b1 mod 0x10 * 0x40 + b2 mod 0x40) * 0x40 + b3 mod 0x40) # utf8_decode 0 0 0x80 0xBF bs"
proof -
  have b2: "b2 \<le> 0xBF" using assms(4) by (simp split: if_splits)
  have u1: "unat (of_nat b1 :: byte) = b1" using assms by (simp add: unat_byte)
  have u2: "unat (of_nat b2 :: byte) = b2" using b2 by (simp add: unat_byte)
  have u3: "unat (of_nat b3 :: byte) = b3" using assms by (simp add: unat_byte)
  show ?thesis using assms
    by (simp add: u1 u2 u3 Let_def numeral_2_eq_2 split: if_splits)
qed

lemma decode_four_bytes:
  assumes "0xF0 \<le> b1" "b1 \<le> 0xF4"
    and "(if b1 = 0xF0 then 0x90 else 0x80) \<le> b2" "b2 \<le> (if b1 = 0xF4 then 0x8F else 0xBF)"
    and "0x80 \<le> b3" "b3 \<le> 0xBF" and "0x80 \<le> b4" "b4 \<le> 0xBF"
  shows "utf8_decode a 0 lo hi (of_nat b1 # of_nat b2 # of_nat b3 # of_nat b4 # bs) =
         (((b1 mod 0x08 * 0x40 + b2 mod 0x40) * 0x40 + b3 mod 0x40) * 0x40 + b4 mod 0x40)
           # utf8_decode 0 0 0x80 0xBF bs"
proof -
  have b2: "b2 \<le> 0xBF" using assms(4) by (simp split: if_splits)
  have u1: "unat (of_nat b1 :: byte) = b1" using assms by (simp add: unat_byte)
  have u2: "unat (of_nat b2 :: byte) = b2" using b2 by (simp add: unat_byte)
  have u3: "unat (of_nat b3 :: byte) = b3" using assms by (simp add: unat_byte)
  have u4: "unat (of_nat b4 :: byte) = b4" using assms by (simp add: unat_byte)
  show ?thesis using assms
    by (simp add: u1 u2 u3 u4 Let_def numeral_2_eq_2 numeral_3_eq_3 split: if_splits)
qed

lemma digits2: "cp div 0x40 * 0x40 + cp mod 0x40 = cp" for cp :: nat
  by simp

lemma digits3: "(cp div 0x1000 * 0x40 + cp div 0x40 mod 0x40) * 0x40 + cp mod 0x40 = cp"
  for cp :: nat
proof -
  have "cp div 0x1000 = cp div 0x40 div 0x40" by (simp add: div_mult2_eq [symmetric])
  then have "cp div 0x1000 * 0x40 + cp div 0x40 mod 0x40 = cp div 0x40" by simp
  then show ?thesis by simp
qed

lemma digits4:
  "((cp div 0x40000 * 0x40 + cp div 0x1000 mod 0x40) * 0x40 + cp div 0x40 mod 0x40) * 0x40
     + cp mod 0x40 = cp" for cp :: nat
proof -
  have "cp div 0x40000 = cp div 0x1000 div 0x40" by (simp add: div_mult2_eq [symmetric])
  then have "cp div 0x40000 * 0x40 + cp div 0x1000 mod 0x40 = cp div 0x1000" by simp
  then show ?thesis using digits3 [of cp] by simp
qed

lemma low6: "(0x80 + r mod 0x40) mod 0x40 = r mod 0x40" "0x80 \<le> 0x80 + r mod 0x40"
  "0x80 + r mod 0x40 \<le> 0xBF" for r :: nat
proof -
  have "r mod 0x40 < 0x40" by simp
  then show "0x80 + r mod 0x40 \<le> 0xBF" by linarith
  have "(2 * 0x40 + r mod 0x40) mod 0x40 = r mod 0x40" by (rule mod_shift) simp
  then show "(0x80 + r mod 0x40) mod 0x40 = r mod 0x40" by simp
qed simp

lemma decode_encode_two:
  assumes "0x80 \<le> cp" and "cp < 0x800"
  shows "utf8_decode a 0 lo hi (utf8_encode cp @ bs) = cp # utf8_decode 0 0 0x80 0xBF bs"
proof -
  define q where "q = cp div 0x40"
  define b1 where "b1 = 0xC0 + q"
  define b2 where "b2 = 0x80 + cp mod 0x40"
  have q: "2 \<le> q" "q < 0x20"
    using assms div_ge [of "0x40" 2 cp] div_lt [of cp "0x20" "0x40"] by (simp_all add: q_def)
  have m: "b1 mod 0x20 = q" using mod_shift [of q "0x20" 6] q by (simp add: b1_def)
  have r: "0xC2 \<le> b1" "b1 \<le> 0xDF" using q by (simp_all add: b1_def)
  have l: "b2 mod 0x40 = cp mod 0x40" "0x80 \<le> b2" "b2 \<le> 0xBF"
    using low6 [of cp] by (simp_all add: b2_def)
  have e: "utf8_encode cp @ bs = of_nat b1 # of_nat b2 # bs"
    using assms by (simp add: utf8_encode_def q_def b1_def b2_def)
  show ?thesis
    unfolding e decode_two_bytes [OF r l(2,3)] m l(1) q_def
    by (simp only: digits2)
qed

lemma decode_encode_three:
  assumes "0x800 \<le> cp" and "cp < 0x10000" and "\<not> (0xD800 \<le> cp \<and> cp \<le> 0xDFFF)"
  shows "utf8_decode a 0 lo hi (utf8_encode cp @ bs) = cp # utf8_decode 0 0 0x80 0xBF bs"
proof -
  define q where "q = cp div 0x1000"
  define x where "x = cp div 0x40"
  define b1 where "b1 = 0xE0 + q"
  define b2 where "b2 = 0x80 + x mod 0x40"
  define b3 where "b3 = 0x80 + cp mod 0x40"
  have q: "q < 0x10" using assms div_lt [of cp "0x10" "0x1000"] by (simp add: q_def)
  have m: "b1 mod 0x10 = q" using mod_shift [of q "0x10" 14] q by (simp add: b1_def)
  have r: "0xE0 \<le> b1" "b1 \<le> 0xEF" using q by (simp_all add: b1_def)
  have l2: "b2 mod 0x40 = x mod 0x40" "0x80 \<le> b2" "b2 \<le> 0xBF"
    using low6 [of x] by (simp_all add: b2_def)
  have l3: "b3 mod 0x40 = cp mod 0x40" "0x80 \<le> b3" "b3 \<le> 0xBF"
    using low6 [of cp] by (simp_all add: b3_def)
  have lo2: "0xA0 \<le> b2" if "b1 = 0xE0"
  proof -
    from that have "q = 0" by (simp add: b1_def)
    then have "cp < 0x1000" using div_ge [of "0x1000" 1 cp] by (simp add: q_def)
    then have "x < 0x40" using div_lt [of cp "0x40" "0x40"] by (simp add: x_def)
    moreover have "0x20 \<le> x" using assms(1) div_ge [of "0x40" "0x20" cp] by (simp add: x_def)
    ultimately show ?thesis by (simp add: b2_def)
  qed
  have hi2: "b2 \<le> 0x9F" if "b1 = 0xED"
  proof -
    from that have "q = 13" by (simp add: b1_def)
    then have "cp < 0xE000" using div_ge [of "0x1000" 14 cp] by (simp add: q_def)
    with assms(3) have c: "cp < 0xD800" by simp
    have "13 * 0x1000 \<le> cp"
      using \<open>q = 13\<close> div_lt [of cp 13 "0x1000"] by (simp add: q_def)
    then have lo: "832 \<le> x" using div_ge [of "0x40" 832 cp] by (simp add: x_def)
    have up: "x < 864" using c div_lt [of cp 864 "0x40"] by (simp add: x_def)
    have "x mod 0x40 = x - 13 * 0x40" using lo up by (intro mod_range) simp_all
    then show ?thesis using lo up by (simp add: b2_def)
  qed
  have c2: "(if b1 = 0xE0 then 0xA0 else 0x80) \<le> b2" "b2 \<le> (if b1 = 0xED then 0x9F else 0xBF)"
    using lo2 hi2 l2 by simp_all
  have e: "utf8_encode cp @ bs = of_nat b1 # of_nat b2 # of_nat b3 # bs"
    using assms by (simp add: utf8_encode_def q_def x_def b1_def b2_def b3_def)
  show ?thesis
    unfolding e decode_three_bytes [OF r c2 l3(2,3)] m l2(1) l3(1) q_def x_def
    by (simp only: digits3)
qed

lemma decode_encode_four:
  assumes "0x10000 \<le> cp" and "cp < 0x110000"
  shows "utf8_decode a 0 lo hi (utf8_encode cp @ bs) = cp # utf8_decode 0 0 0x80 0xBF bs"
proof -
  define q where "q = cp div 0x40000"
  define y where "y = cp div 0x1000"
  define x where "x = cp div 0x40"
  define b1 where "b1 = 0xF0 + q"
  define b2 where "b2 = 0x80 + y mod 0x40"
  define b3 where "b3 = 0x80 + x mod 0x40"
  define b4 where "b4 = 0x80 + cp mod 0x40"
  have q: "q < 5" using assms div_lt [of cp 5 "0x40000"] by (simp add: q_def)
  have m: "b1 mod 0x08 = q" using mod_shift [of q "0x08" 30] q by (simp add: b1_def)
  have r: "0xF0 \<le> b1" "b1 \<le> 0xF4" using q by (simp_all add: b1_def)
  have l2: "b2 mod 0x40 = y mod 0x40" "0x80 \<le> b2" "b2 \<le> 0xBF"
    using low6 [of y] by (simp_all add: b2_def)
  have l3: "b3 mod 0x40 = x mod 0x40" "0x80 \<le> b3" "b3 \<le> 0xBF"
    using low6 [of x] by (simp_all add: b3_def)
  have l4: "b4 mod 0x40 = cp mod 0x40" "0x80 \<le> b4" "b4 \<le> 0xBF"
    using low6 [of cp] by (simp_all add: b4_def)
  have lo2: "0x90 \<le> b2" if "b1 = 0xF0"
  proof -
    from that have "q = 0" by (simp add: b1_def)
    then have "cp < 0x40000" using div_ge [of "0x40000" 1 cp] by (simp add: q_def)
    then have "y < 0x40" using div_lt [of cp "0x40" "0x1000"] by (simp add: y_def)
    moreover have "0x10 \<le> y" using assms(1) div_ge [of "0x1000" "0x10" cp] by (simp add: y_def)
    ultimately show ?thesis by (simp add: b2_def)
  qed
  have hi2: "b2 \<le> 0x8F" if "b1 = 0xF4"
  proof -
    from that have "q = 4" by (simp add: b1_def)
    then have "4 * 0x40000 \<le> cp"
      using div_lt [of cp 4 "0x40000"] by (simp add: q_def)
    then have lo: "256 \<le> y" using div_ge [of "0x1000" 256 cp] by (simp add: y_def)
    have up: "y < 272" using assms(2) div_lt [of cp 272 "0x1000"] by (simp add: y_def)
    have "y mod 0x40 = y - 4 * 0x40" using lo up by (intro mod_range) simp_all
    then show ?thesis using lo up by (simp add: b2_def)
  qed
  have c2: "(if b1 = 0xF0 then 0x90 else 0x80) \<le> b2" "b2 \<le> (if b1 = 0xF4 then 0x8F else 0xBF)"
    using lo2 hi2 l2 by simp_all
  have e: "utf8_encode cp @ bs = of_nat b1 # of_nat b2 # of_nat b3 # of_nat b4 # bs"
    using assms by (simp add: utf8_encode_def q_def x_def y_def b1_def b2_def b3_def b4_def)
  show ?thesis
    unfolding e decode_four_bytes [OF r c2 l3(2,3) l4(2,3)] m l2(1) l3(1) l4(1) q_def x_def y_def
    by (simp only: digits4)
qed

lemma decode_encode_scalar:
  assumes "is_scalar cp"
  shows "utf8_decode a 0 lo hi (utf8_encode cp @ bs) = cp # utf8_decode 0 0 0x80 0xBF bs"
proof -
  consider "cp < 0x80" | "0x80 \<le> cp" "cp < 0x800" | "0x800 \<le> cp" "cp < 0x10000"
    | "0x10000 \<le> cp" by linarith
  then show ?thesis
  proof cases
    case 1
    then have "utf8_encode cp @ bs = of_nat cp # bs" by (simp add: utf8_encode_def)
    then show ?thesis using 1 decode_one_byte [of cp a lo hi bs] by simp
  next
    case 2
    then show ?thesis by (rule decode_encode_two)
  next
    case 3
    then show ?thesis using assms by (intro decode_encode_three) (simp_all add: is_scalar_def)
  next
    case 4
    then show ?thesis using assms by (intro decode_encode_four) (simp_all add: is_scalar_def)
  qed
qed

lemma decode_encode_scalars:
  "list_all is_scalar cps \<Longrightarrow>
   utf8_decode a 0 lo hi (concat (map utf8_encode cps)) = cps"
proof (induction cps arbitrary: a lo hi)
  case Nil
  then show ?case by simp
next
  case (Cons c cs)
  then show ?case by (simp add: decode_encode_scalar)
qed

lemma unat_unit: "unat (c :: 16 word) < 0x10000"
  using unsigned_less [of c, where 'a = nat] by simp

lemma is_high_unat: "is_high c = (0xD800 \<le> unat c \<and> unat c \<le> 0xDBFF)"
  by (simp add: is_high_def word_le_nat_alt)

lemma is_low_unat: "is_low c = (0xDC00 \<le> unat c \<and> unat c \<le> 0xDFFF)"
  by (simp add: is_low_def word_le_nat_alt)

lemma unit_of_nat: "n < 0x10000 \<Longrightarrow> unat (of_nat n :: 16 word) = n"
  by (simp add: unat_of_nat)

lemma pair_value_range:
  assumes "is_high c" and "is_low d"
  shows "0x10000 \<le> pair_value c d" and "pair_value c d < 0x110000"
proof -
  have h: "unat c - 0xD800 < 0x400" and l: "unat d - 0xDC00 < 0x400"
    using assms unfolding is_high_unat is_low_unat by linarith+
  show "0x10000 \<le> pair_value c d" by (simp add: pair_value_def)
  show "pair_value c d < 0x110000" using h l unfolding pair_value_def by linarith
qed

lemma to_scalars_scalar: "list_all is_scalar (to_scalars s)"
proof (induction s rule: to_scalars.induct)
  case 1
  then show ?case by simp
next
  case (2 c)
  have "is_scalar (unat c)" if "\<not> is_high c" "\<not> is_low c"
    using that unat_unit [of c] unfolding is_scalar_def is_high_unat is_low_unat by linarith
  then show ?case by (auto simp: is_scalar_def)
next
  case (3 c d s)
  have u: "is_scalar (unat c)" if "\<not> is_high c" "\<not> is_low c"
    using that unat_unit [of c] unfolding is_scalar_def is_high_unat is_low_unat by linarith
  have p: "is_scalar (pair_value c d)" if "is_high c" "is_low d"
    using pair_value_range [OF that] unfolding is_scalar_def by linarith
  have f: "is_scalar 0xFFFD" by (simp add: is_scalar_def)
  from 3 u p f show ?case by auto
qed

lemma from_scalar_unit:
  "from_scalar (unat c) = [c]"
  using unat_unit [of c] by (simp add: from_scalar_def)

lemma from_scalar_pair:
  assumes "is_high c" and "is_low d"
  shows "from_scalar (pair_value c d) = [c, d]"
proof -
  define h where "h = unat c - 0xD800"
  define l where "l = unat d - 0xDC00"
  have h: "unat c = 0xD800 + h" "h < 0x400"
    using assms(1) unfolding h_def is_high_unat by linarith+
  have l: "unat d = 0xDC00 + l" "l < 0x400"
    using assms(2) unfolding l_def is_low_unat by linarith+
  have p: "pair_value c d - 0x10000 = h * 0x400 + l"
    by (simp add: pair_value_def h_def l_def)
  have d1: "(h * 0x400 + l) div 0x400 = h" using l(2) by simp
  have d2: "(h * 0x400 + l) mod 0x400 = l" using l(2) by simp
  have "from_scalar (pair_value c d) = [of_nat (0xD800 + h), of_nat (0xDC00 + l)]"
    using pair_value_range [OF assms] unfolding from_scalar_def p d1 d2 by simp
  also have "\<dots> = [of_nat (unat c), of_nat (unat d)]" by (simp only: h(1) l(1))
  finally show ?thesis by simp
qed

lemma from_to_scalars: "well_formed s \<Longrightarrow> concat (map from_scalar (to_scalars s)) = s"
proof (induction s rule: to_scalars.induct)
  case 1
  then show ?case by simp
next
  case (2 c)
  then show ?case by (simp add: from_scalar_unit)
next
  case (3 c d s)
  then show ?case
    by (auto simp: from_scalar_unit from_scalar_pair split: if_splits)
qed

lemma unat_bom: "(unat (c :: 16 word) = 0xFEFF) = (c = 0xFEFF)"
  by (simp add: word_unat_eq_iff)

lemma strip_bom_to_scalars:
  "\<not> starts_with_bom s \<Longrightarrow> strip_bom (to_scalars s) = to_scalars s"
proof (cases s rule: to_scalars.cases)
  case 1
  then show ?thesis by (simp add: strip_bom_def)
next
  case (2 c)
  assume "\<not> starts_with_bom s"
  with 2 show ?thesis by (simp add: strip_bom_def starts_with_bom_def unat_bom)
next
  case (3 c d r)
  assume "\<not> starts_with_bom s"
  with 3 show ?thesis
    using pair_value_range(1) [of c d]
    by (auto simp: strip_bom_def starts_with_bom_def unat_bom)
qed

lemma text_round_trip:
  assumes "well_formed s" and "\<not> starts_with_bom s"
  shows "TextDecoder_decode (TextEncoder_encode s) = s"
proof -
  have "utf8_decode 0 0 0x80 0xBF (TextEncoder_encode s) = to_scalars s"
    unfolding TextEncoder_encode_def
    by (rule decode_encode_scalars) (rule to_scalars_scalar)
  then show ?thesis
    using assms by (simp add: TextDecoder_decode_def strip_bom_to_scalars from_to_scalars)
qed

section \<open>crypto.js: encrypt, decrypt, verify\<close>

lemma round_trip:
  assumes "aead_correct pf" and "well_formed P" and "\<not> starts_with_bom P"
    and "fst (encrypt pf P W w) = Inr e"
  shows "decrypt pf e W = Inr P"
proof -
  have ew: "encrypt_with pf (map (entropy w) [0..<SALT_BYTES])
        (map (\<lambda>i. entropy w (i + SALT_BYTES)) [0..<IV_BYTES]) P W = Inr e"
    using assms(4) by (simp add: encrypt_fst)
  have "decrypt pf e W = Inr (TextDecoder_decode (TextEncoder_encode P))"
    using decrypt_encrypt_with [OF ew, of W] assms(1)
    by (simp add: aead_correct_def)
  then show ?thesis using assms(2,3) by (simp add: text_round_trip)
qed

lemma round_trip_fits:
  assumes "aead_correct pf" and "well_formed P" and "\<not> starts_with_bom P"
  shows "(encrypt_fits pf P W w \<longrightarrow>
            (\<exists>e. fst (encrypt pf P W w) = Inr e \<and> decrypt pf e W = Inr P)) \<and>
         (\<not> encrypt_fits pf P W w \<longrightarrow> fst (encrypt pf P W w) = Inl RangeError)"
  using encrypt_fits_Inr [of pf P W w] encrypt_not_fits [of pf P W w] round_trip [OF assms]
  by blast

lemma same_encoding_same_result:
  assumes "TextEncoder_encode W1 = TextEncoder_encode W2"
  shows "decrypt pf e W1 = decrypt pf e W2"
proof -
  have k: "deriveKey pf W1 = deriveKey pf W2"
    using assms by (simp add: deriveKey_def fun_eq_iff)
  show ?thesis unfolding decrypt_def k ..
qed

lemma same_encoding_same_envelope:
  "TextEncoder_encode P1 = TextEncoder_encode P2 \<Longrightarrow>
   fst (encrypt pf P1 W w) = fst (encrypt pf P2 W w)"
  unfolding encrypt_fst encrypt_with_def by simp

lemma lone_surrogate_encoding:
  "is_high c \<or> is_low c \<Longrightarrow> TextEncoder_encode [c] = TextEncoder_encode [0xFFFD]"
  by (simp add: TextEncoder_encode_def is_high_def is_low_def)

lemma lone_surrogate_not_restored:
  assumes "aead_correct pf" and "is_high c \<or> is_low c"
    and "fst (encrypt pf [c] W w) = Inr e"
  shows "decrypt pf e W = Inr [0xFFFD]"
proof -
  have "well_formed [0xFFFD]" "\<not> starts_with_bom [0xFFFD]"
    by (simp_all add: is_high_def is_low_def starts_with_bom_def)
  moreover have "fst (encrypt pf [0xFFFD] W w) = Inr e"
    using same_encoding_same_envelope [OF lone_surrogate_encoding [OF assms(2)], of pf W w]
      assms(3)
    by simp
  ultimately show ?thesis using round_trip [OF assms(1)] by blast
qed

lemma encode_injective:
  assumes "well_formed s" and "well_formed t" and "TextEncoder_encode s = TextEncoder_encode t"
  shows "s = t"
proof -
  have d: "utf8_decode 0 0 0x80 0xBF (TextEncoder_encode u) = to_scalars u" for u
    unfolding TextEncoder_encode_def
    by (rule decode_encode_scalars) (rule to_scalars_scalar)
  from d [of s] d [of t] assms(3) have "to_scalars s = to_scalars t" by simp
  then have "concat (map from_scalar (to_scalars s)) = concat (map from_scalar (to_scalars t))"
    by simp
  then show ?thesis using assms(1,2) by (simp add: from_to_scalars)
qed

lemma utf8_decode_numeral:
  "utf8_decode cp 1 lo hi bs = utf8_decode cp (Suc 0) lo hi bs"
  "utf8_decode cp 2 lo hi bs = utf8_decode cp (Suc (Suc 0)) lo hi bs"
  "utf8_decode cp 3 lo hi bs = utf8_decode cp (Suc (Suc (Suc 0))) lo hi bs"
  by (simp_all add: numeral_2_eq_2 numeral_3_eq_3)

lemmas eval2 = eval_defs utf8_decode_numeral plain1_def pw2_def starts_with_bom_def



text \<open>
  C1, as the code has it. For every password and every plaintext that is well formed (no
  surrogate code unit outside a pair), does not begin with U+FEFF and fits the engine
  (its ciphertext, like the salt and the nonce, is no longer than the engine accepts
  arguments in one call), \<open>encrypt\<close> returns an envelope and \<open>decrypt\<close> of that envelope
  under the same password returns exactly the plaintext, on every platform whose AES-GCM
  decrypts what it encrypted. For a plaintext that does not fit, \<open>encrypt\<close> throws a
  RangeError and there is no envelope.
\<close>

theorem decrypt_encrypt_round_trip:
  assumes "aead_correct pf" and "well_formed P" and "\<not> starts_with_bom P"
  shows "(encrypt_fits pf P W w \<longrightarrow>
            (\<exists>e. fst (encrypt pf P W w) = Inr e \<and> decrypt pf e W = Inr P)) \<and>
         (\<not> encrypt_fits pf P W w \<longrightarrow> fst (encrypt pf P W w) = Inl RangeError)"
  using assms by (rule round_trip_fits)

text \<open>
  On the reference platform a short plaintext comes back as it was; on the engine that
  accepts 20 arguments the plaintext of 32 bytes does not fit and \<open>encrypt\<close> throws.
\<close>

theorem decrypt_encrypt_round_trip_witness:
  "aead_correct ref_platform \<and> well_formed plain1 \<and>
   \<not> starts_with_bom plain1 \<and> encrypt_fits ref_platform plain1 pw1 world0 \<and>
   (case fst (encrypt ref_platform plain1 pw1 world0) of
      Inl x \<Rightarrow> False
    | Inr e \<Rightarrow> decrypt ref_platform e pw1 = Inr plain1) \<and>
   aead_correct narrow_platform \<and> well_formed plain_long \<and> \<not> starts_with_bom plain_long \<and>
   \<not> encrypt_fits narrow_platform plain_long pw1 world0 \<and>
   fst (encrypt narrow_platform plain_long pw1 world0) = Inl RangeError"
proof -
  have w: "well_formed plain1" and b: "\<not> starts_with_bom plain1"
    by (simp_all add: plain1_def js_def is_high_def is_low_def starts_with_bom_def)
  have f: "encrypt_fits ref_platform plain1 pw1 world0"
    by (simp add: eval2)
  obtain e where "fst (encrypt ref_platform plain1 pw1 world0) = Inr e"
    and "decrypt ref_platform e pw1 = Inr plain1"
    using decrypt_encrypt_round_trip [OF ref_aead_correct w b, of pw1 world0] f
    by blast
  then have 1: "case fst (encrypt ref_platform plain1 pw1 world0) of
      Inl x \<Rightarrow> False
    | Inr e \<Rightarrow> decrypt ref_platform e pw1 = Inr plain1"
    by simp
  have a: "aead_correct narrow_platform"
    using ref_aead_correct by (simp add: aead_correct_def narrow_platform_def)
  have wl: "well_formed plain_long" and bl: "\<not> starts_with_bom plain_long"
    by (simp_all add: plain_long_def js_def is_high_def is_low_def starts_with_bom_def)
  have n: "\<not> encrypt_fits narrow_platform plain_long pw1 world0"
    by (simp add: eval2 narrow_platform_def plain_long_def)
  have 2: "fst (encrypt narrow_platform plain_long pw1 world0) = Inl RangeError"
    using decrypt_encrypt_round_trip [OF a wl bl, of pw1 world0] n by blast
  from ref_aead_correct w b f 1 a wl bl n 2 show ?thesis by simp
qed

text \<open>
  The claim as stated fails. \<open>TextEncoder\<close> writes a surrogate outside a pair as U+FFFD,
  so the plaintext of the one code unit D800 comes back as U+FFFD; \<open>TextDecoder\<close> removes
  a leading byte order mark, so a plaintext that begins with U+FEFF comes back without it.
  \<open>lone_surrogate_not_restored\<close> shows the first on every platform that meets the
  contract, for every envelope \<open>encrypt\<close> returns.
\<close>

theorem round_trip_counterexample:
  "(case fst (encrypt ref_platform [0xD800] pw1 world0) of
      Inl x \<Rightarrow> False
    | Inr e \<Rightarrow> decrypt ref_platform e pw1 = Inr [0xFFFD]) \<and>
   (case fst (encrypt ref_platform (0xFEFF # js ''a'') pw1 world0) of
      Inl x \<Rightarrow> False
    | Inr e \<Rightarrow> decrypt ref_platform e pw1 = Inr (js ''a''))"
  by (simp add: eval2)





section \<open>ui.js: changing the password\<close>






end
